theory Spec2Isabelle
  imports Complex_Main
begin

section \<open>Token model (Evaluator.cpp, lines 17-61)\<close>

text \<open>
  The enumeration \<^verbatim>\<open>tokenType\<close>. The enumerators \<^verbatim>\<open>div\<close>, \<^verbatim>\<open>mod\<close> and \<^verbatim>\<open>exp\<close> are
  names of HOL constants, so every enumerator carries the prefix \<open>t_\<close>.
\<close>

datatype tokenType =
  t_nil | t_lpa | t_rpa | t_add | t_sub | t_mul | t_div | t_mod | t_exp | t_i32 | t_f32

text \<open>
  The class \<^verbatim>\<open>token\<close>. The C++ type \<^verbatim>\<open>float\<close> is the type parameter \<open>'f\<close>: its
  arithmetic belongs to the hardware and to the C++ library, not to this program, and is
  passed to the functions below as a record of operations. \<^verbatim>\<open>intData\<close> only ever holds a
  result of \<^verbatim>\<open>std::stoi\<close>, so an unbounded \<open>int\<close> represents it; \<^verbatim>\<open>precedence\<close> holds
  the constants 0 to 9 and is only compared. The field \<^verbatim>\<open>type\<close> is called \<open>ttype\<close>.
\<close>

record 'f token =
  strData :: string
  intData :: int
  fltData :: 'f
  precedence :: nat
  ttype :: tokenType
  rAssociative :: bool
  unary :: bool

text \<open>
  What the program takes from outside: the conversion \<^verbatim>\<open>(float)\<close> of an integer, the value
  \<^verbatim>\<open>0.0f\<close> of a value-initialised \<^verbatim>\<open>float\<close>, \<^verbatim>\<open>std::stof\<close> (\<open>None\<close> when it throws),
  the four arithmetic operators on \<^verbatim>\<open>float\<close> and \<^verbatim>\<open>std::pow\<close>. The last field,
  \<^verbatim>\<open>std::fmod\<close>, is the floating-point modulo that the specification speaks of: the program
  never calls it, and only the reference value of an expression (\<open>direct_value\<close> below)
  uses it.
\<close>

record 'f float_ops =
  of_long :: "int \<Rightarrow> 'f"
  fzero :: 'f
  stof :: "string \<Rightarrow> 'f option"
  fadd :: "'f \<Rightarrow> 'f \<Rightarrow> 'f"
  fsub :: "'f \<Rightarrow> 'f \<Rightarrow> 'f"
  fmul :: "'f \<Rightarrow> 'f \<Rightarrow> 'f"
  fdiv :: "'f \<Rightarrow> 'f \<Rightarrow> 'f"
  fpow :: "'f \<Rightarrow> 'f \<Rightarrow> 'f"
  fmod :: "'f \<Rightarrow> 'f \<Rightarrow> 'f"

text \<open>A value-initialised token, \<^verbatim>\<open>token t {}\<close>.\<close>

definition token_init :: "'f float_ops \<Rightarrow> 'f token" where
  "token_init ops =
     \<lparr>strData = [], intData = 0, fltData = fzero ops, precedence = 0,
      ttype = t_nil, rAssociative = False, unary = False\<rparr>"

text \<open>
  The ways in which a run ends without a number. The first five end the process inside
  \<^verbatim>\<open>lexana::lex\<close>: three calls of \<^verbatim>\<open>exit(1)\<close> and the two exceptions of \<^verbatim>\<open>std::stoi\<close>
  and \<^verbatim>\<open>std::stof\<close>, which nothing catches. \<open>EmptyStackAccess\<close> is \<^verbatim>\<open>stack.back()\<close> on
  an empty vector in \<^verbatim>\<open>compute\<close>, which C++ leaves undefined.
\<close>

datatype error =
  Unexpected char
  | UnexpectedDot
  | RedefinitionOfFloat
  | StoiOutOfRange
  | StofOutOfRange
  | EmptyStackAccess

text \<open>The three diagnostics of \<^verbatim>\<open>shuntingYard\<close>; each is followed by \<^verbatim>\<open>return {}\<close>.\<close>

datatype diagnostic = RightParenthesisError | ErrorToken | MismatchedParentheses


section \<open>Lexer (lines 79-265)\<close>

text \<open>
  The lexer walks an index \<^verbatim>\<open>i\<close> forward through \<^verbatim>\<open>data\<close>. The model carries the rest
  of the input from position \<^verbatim>\<open>i\<close> on. \<^verbatim>\<open>data[i]\<close> with \<^verbatim>\<open>i == data.size()\<close> is the
  terminating null character of \<^verbatim>\<open>std::string\<close>; the index never goes further.
\<close>

definition data_at :: "string \<Rightarrow> char" where
  "data_at cs = (case cs of [] \<Rightarrow> CHR 0x00 | c # _ \<Rightarrow> c)"

definition isdigit :: "char \<Rightarrow> bool" where
  "isdigit c = (c \<in> set ''0123456789'')"

definition is_space :: "char \<Rightarrow> bool" where
  "is_space c = (c = CHR '' '' \<or> c = CHR 0x09 \<or> c = CHR 0x0A \<or> c = CHR 0x0D)"

text \<open>
  The \<^verbatim>\<open>while\<close> loop of lines 181-201 (and 221-241): \<open>ty\<close> is \<^verbatim>\<open>t.type\<close>, \<open>fs\<close> is
  \<^verbatim>\<open>floatStr\<close>. It returns both and the input from the first character that is not part
  of the literal.
\<close>

fun scan_number :: "string \<Rightarrow> tokenType \<Rightarrow> string \<Rightarrow> error + (tokenType \<times> string \<times> string)" where
  "scan_number [] ty fs = Inr (ty, fs, [])"
| "scan_number (c # cs) ty fs =
     (if isdigit c \<or> c = CHR ''_'' \<or> c = CHR ''.'' then
        (if c = CHR ''_'' then scan_number cs ty fs
         else if c = CHR ''.'' then
           (if ty = t_f32 then Inl RedefinitionOfFloat
            else scan_number cs t_f32 (fs @ [CHR ''.'']))
         else scan_number cs ty (fs @ [c]))
      else Inr (ty, fs, c # cs))"

text \<open>
  \<^verbatim>\<open>std::stoi\<close> on a string of decimal digits: the value, or the exception
  \<^verbatim>\<open>std::out_of_range\<close> above \<^verbatim>\<open>INT_MAX\<close> (a 32-bit \<^verbatim>\<open>int\<close>).
\<close>

definition digit_val :: "char \<Rightarrow> int" where
  "digit_val c = of_char c - 48"

definition INT_MAX :: int where
  "INT_MAX = 2147483647"

definition stoi :: "string \<Rightarrow> int option" where
  "stoi fs = (let v = foldl (\<lambda>a c. 10 * a + digit_val c) 0 fs
              in if v > INT_MAX then None else Some v)"

text \<open>Lines 203-208 and 243-248: the literal's text becomes the token's number.\<close>

definition number_token :: "'f float_ops \<Rightarrow> tokenType \<Rightarrow> string \<Rightarrow> error + 'f token" where
  "number_token ops ty fs =
     (if ty = t_f32 then
        (case stof ops fs of
           None \<Rightarrow> Inl StofOutOfRange
         | Some v \<Rightarrow> Inr ((token_init ops)\<lparr>ttype := t_f32, fltData := v\<rparr>))
      else
        (case stoi fs of
           None \<Rightarrow> Inl StoiOutOfRange
         | Some n \<Rightarrow> Inr ((token_init ops)\<lparr>ttype := ty, intData := n\<rparr>)))"

text \<open>Line 117-123: the test that makes a \<^verbatim>\<open>-\<close> unary.\<close>

definition minus_is_unary :: "'f token list \<Rightarrow> bool" where
  "minus_is_unary formatTokens =
     (formatTokens = [] \<or> (ttype (last formatTokens) = t_add
                            \<or> ttype (last formatTokens) = t_sub
                            \<or> ttype (last formatTokens) = t_div
                            \<or> ttype (last formatTokens) = t_mul
                            \<or> ttype (last formatTokens) = t_mod
                            \<or> ttype (last formatTokens) = t_exp)
      \<or> ttype (last formatTokens) = t_lpa)"

text \<open>
  The tokens of the operator and parenthesis cases of the \<^verbatim>\<open>switch\<close> (lines 95-166),
  each with the assignments of its case in the order of the source.
\<close>

definition lpa_token :: "'f float_ops \<Rightarrow> 'f token" where
  "lpa_token ops =
     (token_init ops)\<lparr>ttype := t_lpa, strData := ''('', precedence := 9, rAssociative := False\<rparr>"

definition rpa_token :: "'f float_ops \<Rightarrow> 'f token" where
  "rpa_token ops =
     (token_init ops)\<lparr>ttype := t_rpa, strData := '')'', precedence := 0, rAssociative := False\<rparr>"

definition add_token :: "'f float_ops \<Rightarrow> 'f token" where
  "add_token ops =
     (token_init ops)\<lparr>ttype := t_add, strData := ''+'', precedence := 2, rAssociative := False\<rparr>"

definition unary_token :: "'f float_ops \<Rightarrow> 'f token" where
  "unary_token ops =
     (token_init ops)\<lparr>unary := True, precedence := 5, rAssociative := False, strData := ''m'',
                       precedence := 5, ttype := t_sub\<rparr>"

definition sub_token :: "'f float_ops \<Rightarrow> 'f token" where
  "sub_token ops =
     (token_init ops)\<lparr>ttype := t_sub, strData := ''-'', precedence := 2, rAssociative := False\<rparr>"

definition div_token :: "'f float_ops \<Rightarrow> 'f token" where
  "div_token ops =
     (token_init ops)\<lparr>ttype := t_div, strData := ''/'', precedence := 3, rAssociative := False\<rparr>"

definition mul_token :: "'f float_ops \<Rightarrow> 'f token" where
  "mul_token ops =
     (token_init ops)\<lparr>ttype := t_mul, strData := ''*'', precedence := 3, rAssociative := False\<rparr>"

definition mod_token :: "'f float_ops \<Rightarrow> 'f token" where
  "mod_token ops =
     (token_init ops)\<lparr>ttype := t_mod, strData := ''%'', precedence := 6, rAssociative := False\<rparr>"

definition exp_token :: "'f float_ops \<Rightarrow> 'f token" where
  "exp_token ops =
     (token_init ops)\<lparr>ttype := t_exp, strData := ''^'', precedence := 4, rAssociative := True\<rparr>"

text \<open>
  The \<^verbatim>\<open>switch\<close> of lines 87-261 for a character that is not white space: the token that
  is pushed and the input that is left once the \<^verbatim>\<open>for\<close> loop has done its \<^verbatim>\<open>++i\<close>.
  After a literal, \<^verbatim>\<open>--i\<close> and the loop's \<^verbatim>\<open>++i\<close> leave the index on the first
  character behind the literal.
\<close>

definition lex_token :: "'f float_ops \<Rightarrow> string \<Rightarrow> 'f token list \<Rightarrow> error + ('f token \<times> string)" where
  "lex_token ops cs formatTokens =
     (let c = data_at cs in
      if c = CHR ''('' then Inr (lpa_token ops, tl cs)
      else if c = CHR '')'' then Inr (rpa_token ops, tl cs)
      else if c = CHR ''+'' then Inr (add_token ops, tl cs)
      else if c = CHR ''-'' then
        (if minus_is_unary formatTokens then Inr (unary_token ops, tl cs)
         else Inr (sub_token ops, tl cs))
      else if c = CHR ''/'' then Inr (div_token ops, tl cs)
      else if c = CHR ''*'' \<or> c = CHR ''x'' then Inr (mul_token ops, tl cs)
      else if c = CHR ''%'' then Inr (mod_token ops, tl cs)
      else if c = CHR ''^'' then Inr (exp_token ops, tl cs)
      else if isdigit c then
        (case scan_number cs t_i32 [] of
           Inl e \<Rightarrow> Inl e
         | Inr (ty, fs, rest) \<Rightarrow>
             (case number_token ops ty fs of
                Inl e \<Rightarrow> Inl e
              | Inr t \<Rightarrow> Inr (t, rest)))
      else if c = CHR ''.'' then
        (if isdigit (data_at (tl cs)) then
           (case scan_number (tl cs) t_f32 ''.'' of
              Inl e \<Rightarrow> Inl e
            | Inr (ty, fs, rest) \<Rightarrow>
                (case number_token ops ty fs of
                   Inl e \<Rightarrow> Inl e
                 | Inr t \<Rightarrow> Inr (t, rest)))
         else Inl UnexpectedDot)
      else Inl (Unexpected c))"

lemma scan_number_length:
  "scan_number cs ty fs = Inr (ty', fs', rest) \<Longrightarrow> length rest \<le> length cs"
  by (induction cs ty fs rule: scan_number.induct) (auto split: if_splits)

lemma isdigit_not_punct:
  "isdigit c \<Longrightarrow> c \<notin> set ''()+-/*x%^_. ''"
  by (auto simp: isdigit_def)

lemma lex_token_digit:
  "isdigit (data_at cs) \<Longrightarrow> lex_token ops cs toks =
     (case scan_number cs t_i32 [] of
        Inl e \<Rightarrow> Inl e
      | Inr (ty, fs, rest) \<Rightarrow>
          (case number_token ops ty fs of Inl e \<Rightarrow> Inl e | Inr t \<Rightarrow> Inr (t, rest)))"
  using isdigit_not_punct [of "data_at cs"] by (simp add: lex_token_def Let_def)

lemma lex_token_dot:
  "data_at cs = CHR ''.'' \<Longrightarrow> lex_token ops cs toks =
     (if isdigit (data_at (tl cs)) then
        (case scan_number (tl cs) t_f32 ''.'' of
           Inl e \<Rightarrow> Inl e
         | Inr (ty, fs, rest) \<Rightarrow>
             (case number_token ops ty fs of Inl e \<Rightarrow> Inl e | Inr t \<Rightarrow> Inr (t, rest)))
      else Inl UnexpectedDot)"
  by (simp add: lex_token_def Let_def isdigit_def)

lemma lex_token_other:
  "data_at cs \<notin> set ''()+-/*x%^.'' \<Longrightarrow> \<not> isdigit (data_at cs) \<Longrightarrow>
     lex_token ops cs toks = Inl (Unexpected (data_at cs))"
  by (simp add: lex_token_def Let_def)

lemma lex_token_punct:
  "data_at cs \<in> set ''()+-/*x%^'' \<Longrightarrow> lex_token ops cs toks = Inr (t, rest) \<Longrightarrow> rest = tl cs"
  by (auto simp: lex_token_def Let_def split: if_splits)

lemma lex_token_length:
  assumes "lex_token ops cs toks = Inr (t, rest)"
  shows "length rest < length cs"
proof (cases cs)
  case Nil
  then have "data_at cs = CHR 0x00"
    by (simp add: data_at_def)
  then have "lex_token ops cs toks = Inl (Unexpected (data_at cs))"
    by (intro lex_token_other) (simp_all add: isdigit_def)
  with assms show ?thesis by simp
next
  case (Cons c cs')
  then have c: "data_at cs = c" "tl cs = cs'"
    by (simp_all add: data_at_def)
  consider (punct) "c \<in> set ''()+-/*x%^''" | (digit) "isdigit c" | (dot) "c = CHR ''.''"
    | (other) "c \<notin> set ''()+-/*x%^.''" "\<not> isdigit c"
    by auto
  then show ?thesis
  proof cases
    case punct
    with assms c have "rest = cs'"
      using lex_token_punct [of cs ops toks t rest] by simp
    then show ?thesis by (simp add: Cons)
  next
    case digit
    with assms c obtain ty fs where "scan_number cs t_i32 [] = Inr (ty, fs, rest)"
      by (auto simp: lex_token_digit split: sum.splits prod.splits)
    moreover from digit have "scan_number cs t_i32 [] = scan_number cs' t_i32 [c]"
      using isdigit_not_punct [of c] by (simp add: Cons)
    ultimately have "length rest \<le> length cs'"
      using scan_number_length by metis
    then show ?thesis by (simp add: Cons)
  next
    case dot
    with assms c obtain ty fs where "scan_number cs' t_f32 ''.'' = Inr (ty, fs, rest)"
      by (auto simp: lex_token_dot split: sum.splits prod.splits if_splits)
    then have "length rest \<le> length cs'"
      using scan_number_length by metis
    then show ?thesis by (simp add: Cons)
  next
    case other
    with assms c show ?thesis
      using lex_token_other [of cs ops toks] by simp
  qed
qed

text \<open>
  The \<^verbatim>\<open>for\<close> loop. \<open>lex_for\<close> is the loop at its test \<^verbatim>\<open>i < data.size()\<close>, \<open>lex_again\<close>
  the body from the label \<^verbatim>\<open>_again\<close> on. White space does \<^verbatim>\<open>++i; goto _again\<close>, which
  re-enters the body without the test; after a token the loop's \<^verbatim>\<open>++i\<close> and the test
  come first.
\<close>

function lex_for :: "'f float_ops \<Rightarrow> string \<Rightarrow> 'f token list \<Rightarrow> error + 'f token list"
  and lex_again :: "'f float_ops \<Rightarrow> string \<Rightarrow> 'f token list \<Rightarrow> error + 'f token list" where
  "lex_for ops cs formatTokens =
     (if cs = [] then Inr formatTokens else lex_again ops cs formatTokens)"
| "lex_again ops cs formatTokens =
     (if is_space (data_at cs) then lex_again ops (tl cs) formatTokens
      else
        (case lex_token ops cs formatTokens of
           Inl e \<Rightarrow> Inl e
         | Inr (t, rest) \<Rightarrow> lex_for ops rest (formatTokens @ [t])))"
  by pat_completeness auto
termination
proof (relation "measure (\<lambda>x. case x of Inl (ops, cs, toks) \<Rightarrow> 2 * length cs + 1
                                        | Inr (ops, cs, toks) \<Rightarrow> 2 * length cs)")
  show "wf (measure (\<lambda>x. case x of Inl (ops :: 'f float_ops, cs, toks :: 'f token list) \<Rightarrow> 2 * length cs + 1
                                   | Inr (ops, cs, toks) \<Rightarrow> 2 * length cs))"
    by simp
next
  fix ops :: "'f float_ops" and cs :: string and formatTokens :: "'f token list"
  show "(Inr (ops, cs, formatTokens), Inl (ops, cs, formatTokens))
      \<in> measure (\<lambda>x. case x of Inl (ops, cs, toks) \<Rightarrow> 2 * length cs + 1
                               | Inr (ops, cs, toks) \<Rightarrow> 2 * length cs)"
    by simp
next
  fix ops :: "'f float_ops" and cs :: string and formatTokens :: "'f token list"
  assume "is_space (data_at cs)"
  then have "cs \<noteq> []"
    by (auto simp: is_space_def data_at_def)
  then show "(Inr (ops, tl cs, formatTokens), Inr (ops, cs, formatTokens))
      \<in> measure (\<lambda>x. case x of Inl (ops, cs, toks) \<Rightarrow> 2 * length cs + 1
                               | Inr (ops, cs, toks) \<Rightarrow> 2 * length cs)"
    by (cases cs) simp_all
next
  fix ops :: "'f float_ops" and cs :: string and formatTokens :: "'f token list"
    and x2 x y
  assume "lex_token ops cs formatTokens = Inr x2" "(x, y) = x2"
  then have "length y < length cs"
    using lex_token_length [of ops cs formatTokens x y] by simp
  then show "(Inl (ops, y, formatTokens @ [x]), Inr (ops, cs, formatTokens))
      \<in> measure (\<lambda>x. case x of Inl (ops, cs, toks) \<Rightarrow> 2 * length cs + 1
                               | Inr (ops, cs, toks) \<Rightarrow> 2 * length cs)"
    by simp
qed

text \<open>
  The two equations call each other without end when the simplifier is free to use them on
  an input that is not given; they are used on given lines (\<open>lex_run\<close> below) and through
  the three lemmas that follow.
\<close>

declare lex_for.simps [simp del] lex_again.simps [simp del]

lemma lex_for_nonempty:
  "cs \<noteq> [] \<Longrightarrow> lex_for ops cs formatTokens = lex_again ops cs formatTokens"
  by (simp add: lex_for.simps)

lemma lex_again_space:
  "is_space (data_at cs) \<Longrightarrow> lex_again ops cs formatTokens = lex_again ops (tl cs) formatTokens"
  by (subst lex_again.simps) simp

lemma lex_again_token:
  "\<not> is_space (data_at cs) \<Longrightarrow> lex_again ops cs formatTokens =
     (case lex_token ops cs formatTokens of
        Inl e \<Rightarrow> Inl e
      | Inr (t, rest) \<Rightarrow> lex_for ops rest (formatTokens @ [t]))"
  by (subst lex_again.simps) simp

text \<open>\<^verbatim>\<open>lexana::lex\<close>, called as \<^verbatim>\<open>main\<close> calls it, with \<^verbatim>\<open>formatTokens\<close> empty.\<close>

definition lexana_lex :: "'f float_ops \<Rightarrow> string \<Rightarrow> error + 'f token list" where
  "lexana_lex ops data = lex_for ops data []"


section \<open>Shunting yard (lines 272-347)\<close>

text \<open>
  \<^verbatim>\<open>queue\<close> is a list that grows at its end (\<^verbatim>\<open>push_back\<close>). \<^verbatim>\<open>stack\<close> is a list whose
  head is \<^verbatim>\<open>stack.back()\<close>: \<^verbatim>\<open>push_back\<close> is \<open>#\<close> and \<^verbatim>\<open>pop_back\<close> is \<open>tl\<close>.
\<close>

text \<open>The \<^verbatim>\<open>while\<close> loop of the operator case, lines 291-302.\<close>

fun pop_operators :: "'f token \<Rightarrow> 'f token list \<Rightarrow> 'f token list \<Rightarrow> 'f token list \<times> 'f token list" where
  "pop_operators o1 [] queue = ([], queue)"
| "pop_operators o1 (o2 # stack) queue =
     (if (\<not> rAssociative o1 \<and> precedence o1 \<le> precedence o2)
         \<or> (rAssociative o1 \<and> precedence o1 < precedence o2)
      then pop_operators o1 stack (queue @ [o2])
      else (o2 # stack, queue))"

text \<open>The \<^verbatim>\<open>while\<close> loop of the right-parenthesis case, lines 315-319.\<close>

fun pop_to_lpa :: "'f token list \<Rightarrow> 'f token list \<Rightarrow> bool \<Rightarrow> 'f token list \<times> 'f token list \<times> bool" where
  "pop_to_lpa [] queue match = ([], queue, match)"
| "pop_to_lpa (x # stack) queue match =
     (if ttype x \<noteq> t_lpa then pop_to_lpa stack (queue @ [x]) True
      else (x # stack, queue, match))"

text \<open>The final \<^verbatim>\<open>while\<close> loop, lines 336-346, and the \<^verbatim>\<open>return\<close>.\<close>

fun pop_remaining :: "'f token list \<Rightarrow> 'f token list \<Rightarrow> diagnostic option \<times> 'f token list" where
  "pop_remaining [] queue = (None, queue)"
| "pop_remaining (x # stack) queue =
     (if ttype x = t_lpa then (Some MismatchedParentheses, [])
      else pop_remaining stack (queue @ [x]))"

text \<open>
  One turn of the \<^verbatim>\<open>for\<close> loop over the tokens, the \<^verbatim>\<open>switch\<close> of lines 277-333:
  either a diagnostic, after which the function returns the empty deque, or the queue and
  the stack after the turn.
\<close>

definition shunting_step ::
  "'f token \<Rightarrow> 'f token list \<Rightarrow> 'f token list \<Rightarrow> diagnostic + ('f token list \<times> 'f token list)" where
  "shunting_step t queue stack =
     (case ttype t of
        t_i32 \<Rightarrow> Inr (queue @ [t], stack)
      | t_f32 \<Rightarrow> Inr (queue @ [t], stack)
      | t_lpa \<Rightarrow> Inr (queue, t # stack)
      | t_rpa \<Rightarrow>
          (case pop_to_lpa stack queue False of
             (stack', queue', match) \<Rightarrow>
               if \<not> match \<and> stack' = [] then Inl RightParenthesisError
               else Inr (queue', if stack' \<noteq> [] then tl stack' else stack'))
      | t_nil \<Rightarrow> Inl ErrorToken
      | _ \<Rightarrow>
          (case pop_operators t stack queue of
             (stack', queue') \<Rightarrow> Inr (queue', t # stack')))"

text \<open>
  The loop itself. The result is what is written to \<^verbatim>\<open>std::cerr\<close>, if anything, and the
  deque that is returned.
\<close>

fun shunting_loop ::
  "'f token list \<Rightarrow> 'f token list \<Rightarrow> 'f token list \<Rightarrow> diagnostic option \<times> 'f token list" where
  "shunting_loop [] queue stack = pop_remaining stack queue"
| "shunting_loop (t # tokens) queue stack =
     (case shunting_step t queue stack of
        Inl d \<Rightarrow> (Some d, [])
      | Inr (queue', stack') \<Rightarrow> shunting_loop tokens queue' stack')"

definition shuntingYard :: "'f token list \<Rightarrow> diagnostic option \<times> 'f token list" where
  "shuntingYard tokens = shunting_loop tokens [] []"


section \<open>Postfix evaluation (lines 349-413)\<close>

text \<open>
  One turn of the \<^verbatim>\<open>while\<close> loop on the value stack (head is \<^verbatim>\<open>stack.back()\<close>).
  \<^verbatim>\<open>rhs *= -1\<close> multiplies by the \<^verbatim>\<open>float\<close> that \<^verbatim>\<open>-1\<close> converts to. The source
  takes a reference to \<^verbatim>\<open>formatted.front()\<close> and pops the deque before it reads the
  token's fields; the model reads the token as it stood in the deque.
\<close>

definition compute_token :: "'f float_ops \<Rightarrow> 'f token \<Rightarrow> 'f list \<Rightarrow> error + 'f list" where
  "compute_token ops t stack =
     (case ttype t of
        t_nil \<Rightarrow> Inr stack
      | t_i32 \<Rightarrow> Inr (of_long ops (intData t) # stack)
      | t_f32 \<Rightarrow> Inr (fltData t # stack)
      | t_lpa \<Rightarrow> Inr stack
      | t_rpa \<Rightarrow> Inr stack
      | _ \<Rightarrow>
          (if unary t then
             (case stack of
                [] \<Rightarrow> Inl EmptyStackAccess
              | rhs # stack' \<Rightarrow> Inr (fmul ops rhs (of_long ops (- 1)) # stack'))
           else
             (case stack of
                rhs # lhs # stack' \<Rightarrow>
                  (case ttype t of
                     t_exp \<Rightarrow> Inr (fpow ops lhs rhs # stack')
                   | t_mul \<Rightarrow> Inr (fmul ops lhs rhs # stack')
                   | t_div \<Rightarrow> Inr (fdiv ops lhs rhs # stack')
                   | t_add \<Rightarrow> Inr (fadd ops lhs rhs # stack')
                   | t_sub \<Rightarrow> Inr (fsub ops lhs rhs # stack')
                   | _ \<Rightarrow> Inr stack')
              | _ \<Rightarrow> Inl EmptyStackAccess)))"

fun compute_loop :: "'f float_ops \<Rightarrow> 'f token list \<Rightarrow> 'f list \<Rightarrow> error + 'f" where
  "compute_loop ops [] stack = (case stack of [] \<Rightarrow> Inl EmptyStackAccess | v # _ \<Rightarrow> Inr v)"
| "compute_loop ops (t # formatted) stack =
     (case compute_token ops t stack of
        Inl e \<Rightarrow> Inl e
      | Inr stack' \<Rightarrow> compute_loop ops formatted stack')"

definition compute :: "'f float_ops \<Rightarrow> 'f token list \<Rightarrow> error + 'f" where
  "compute ops formatted = compute_loop ops formatted []"


section \<open>The pipeline of \<^verbatim>\<open>main\<close> (lines 428-432)\<close>

text \<open>
  For a line other than \<^verbatim>\<open>exit\<close>, \<^verbatim>\<open>main\<close> passes whatever \<^verbatim>\<open>shuntingYard\<close> returns to
  \<^verbatim>\<open>compute\<close>; it does not look at the diagnostic.
\<close>

definition reorder :: "'f float_ops \<Rightarrow> string \<Rightarrow> error + (diagnostic option \<times> 'f token list)" where
  "reorder ops text = (case lexana_lex ops text of Inl e \<Rightarrow> Inl e | Inr tokens \<Rightarrow> Inr (shuntingYard tokens))"

definition evaluate :: "'f float_ops \<Rightarrow> string \<Rightarrow> error + 'f" where
  "evaluate ops text =
     (case lexana_lex ops text of
        Inl e \<Rightarrow> Inl e
      | Inr tokens \<Rightarrow> compute ops (snd (shuntingYard tokens)))"


section \<open>Exact arithmetic as an instance of the operations\<close>

text \<open>
  The theorems below hold for every record of operations. Where a claim names a number,
  the theorem assumes of \<^verbatim>\<open>float\<close> arithmetic only the equations it needs there (all of
  them between small integers, which \<^verbatim>\<open>float\<close> represents exactly), and \<open>exact_ops\<close>
  shows that they can hold together: the real numbers with exact arithmetic, integer powers
  by repeated multiplication, the remainder of the quotient truncated towards zero, and
  decimal literals by their value. It takes no rounding,
  infinity or NaN into account and stands for \<^verbatim>\<open>float\<close> only where the results are exact.
\<close>

definition exact_pow :: "real \<Rightarrow> real \<Rightarrow> real" where
  "exact_pow x y =
     (if y = of_int \<lfloor>y\<rfloor> then (if 0 \<le> y then x ^ nat \<lfloor>y\<rfloor> else 1 / x ^ nat \<lfloor>- y\<rfloor>)
      else x powr y)"

definition decimal_value :: "string \<Rightarrow> real" where
  "decimal_value fs =
     (let ip = takeWhile (\<lambda>c. c \<noteq> CHR ''.'') fs;
          fp = drop 1 (dropWhile (\<lambda>c. c \<noteq> CHR ''.'') fs)
      in of_int (foldl (\<lambda>a c. 10 * a + digit_val c) 0 ip)
         + of_int (foldl (\<lambda>a c. 10 * a + digit_val c) 0 fp) / 10 ^ length fp)"

definition exact_fmod :: "real \<Rightarrow> real \<Rightarrow> real" where
  "exact_fmod x y = x - y * of_int (if 0 \<le> x / y then \<lfloor>x / y\<rfloor> else \<lceil>x / y\<rceil>)"

definition exact_ops :: "real float_ops" where
  "exact_ops =
     \<lparr>of_long = of_int, fzero = 0, stof = (\<lambda>fs. Some (decimal_value fs)),
      fadd = (+), fsub = (-), fmul = (*), fdiv = (/), fpow = exact_pow, fmod = exact_fmod\<rparr>"

text \<open>The tokens of an integer literal and of a float literal, as lines 203-208 fill them.\<close>

definition i32_token :: "'f float_ops \<Rightarrow> int \<Rightarrow> 'f token" where
  "i32_token ops n = (token_init ops)\<lparr>ttype := t_i32, intData := n\<rparr>"

definition f32_token :: "'f float_ops \<Rightarrow> 'f \<Rightarrow> 'f token" where
  "f32_token ops v = (token_init ops)\<lparr>ttype := t_f32, fltData := v\<rparr>"

section \<open>The text read for a literal\<close>

text \<open>
  What the scanning loop has read: the input without what it hands back.
\<close>

definition consumed :: "string \<Rightarrow> string \<Rightarrow> string" where
  "consumed cs rest = take (length cs - length rest) cs"

section \<open>Expressions and their direct evaluation\<close>

text \<open>
  The reference against which the pipeline is measured: an expression as a tree, the
  tokens the lexer makes of it when it is written out, and the value obtained by
  evaluating the tree directly. Unary minus is \<^verbatim>\<open>rhs *= -1\<close>, as in the evaluator.
\<close>

datatype binop = OpAdd | OpSub | OpMul | OpDiv | OpMod | OpPow

datatype 'f expr =
  IntLit int
  | FltLit 'f
  | Neg "'f expr"
  | Bin binop "'f expr" "'f expr"
  | Paren "'f expr"

definition binop_token :: "'f float_ops \<Rightarrow> binop \<Rightarrow> 'f token" where
  "binop_token ops b =
     (case b of
        OpAdd \<Rightarrow> add_token ops
      | OpSub \<Rightarrow> sub_token ops
      | OpMul \<Rightarrow> mul_token ops
      | OpDiv \<Rightarrow> div_token ops
      | OpMod \<Rightarrow> mod_token ops
      | OpPow \<Rightarrow> exp_token ops)"

fun infix_tokens :: "'f float_ops \<Rightarrow> 'f expr \<Rightarrow> 'f token list" where
  "infix_tokens ops (IntLit n) = [i32_token ops n]"
| "infix_tokens ops (FltLit v) = [f32_token ops v]"
| "infix_tokens ops (Neg e) = unary_token ops # infix_tokens ops e"
| "infix_tokens ops (Bin b l r) = infix_tokens ops l @ binop_token ops b # infix_tokens ops r"
| "infix_tokens ops (Paren e) = lpa_token ops # infix_tokens ops e @ [rpa_token ops]"

fun postfix_tokens :: "'f float_ops \<Rightarrow> 'f expr \<Rightarrow> 'f token list" where
  "postfix_tokens ops (IntLit n) = [i32_token ops n]"
| "postfix_tokens ops (FltLit v) = [f32_token ops v]"
| "postfix_tokens ops (Neg e) = postfix_tokens ops e @ [unary_token ops]"
| "postfix_tokens ops (Bin b l r) = postfix_tokens ops l @ postfix_tokens ops r @ [binop_token ops b]"
| "postfix_tokens ops (Paren e) = postfix_tokens ops e"

definition binop_value :: "'f float_ops \<Rightarrow> binop \<Rightarrow> 'f \<Rightarrow> 'f \<Rightarrow> 'f" where
  "binop_value ops b =
     (case b of
        OpAdd \<Rightarrow> fadd ops
      | OpSub \<Rightarrow> fsub ops
      | OpMul \<Rightarrow> fmul ops
      | OpDiv \<Rightarrow> fdiv ops
      | OpMod \<Rightarrow> fmod ops
      | OpPow \<Rightarrow> fpow ops)"

fun direct_value :: "'f float_ops \<Rightarrow> 'f expr \<Rightarrow> 'f" where
  "direct_value ops (IntLit n) = of_long ops n"
| "direct_value ops (FltLit v) = v"
| "direct_value ops (Neg e) = fmul ops (direct_value ops e) (of_long ops (- 1))"
| "direct_value ops (Bin b l r) = binop_value ops b (direct_value ops l) (direct_value ops r)"
| "direct_value ops (Paren e) = direct_value ops e"

text \<open>
  The written form of an expression whose literals are integers that \<^verbatim>\<open>std::stoi\<close>
  accepts: decimal digits, the operator characters and parentheses, nothing else. The tree
  does not keep the text of a float literal, so a tree with one has no written form
  (\<open>integer_literals\<close> excludes it).
\<close>

definition digit_char :: "nat \<Rightarrow> char" where
  "digit_char d = ''0123456789'' ! d"

fun decimal :: "nat \<Rightarrow> string" where
  "decimal n = (if n < 10 then [digit_char n] else decimal (n div 10) @ [digit_char (n mod 10)])"

definition binop_char :: "binop \<Rightarrow> char" where
  "binop_char b =
     (case b of
        OpAdd \<Rightarrow> CHR ''+''
      | OpSub \<Rightarrow> CHR ''-''
      | OpMul \<Rightarrow> CHR ''*''
      | OpDiv \<Rightarrow> CHR ''/''
      | OpMod \<Rightarrow> CHR ''%''
      | OpPow \<Rightarrow> CHR ''^'')"

fun written :: "'f expr \<Rightarrow> string" where
  "written (IntLit n) = decimal (nat n)"
| "written (FltLit v) = []"
| "written (Neg e) = CHR ''-'' # written e"
| "written (Bin b l r) = written l @ binop_char b # written r"
| "written (Paren e) = CHR ''('' # written e @ '')''"

fun integer_literals :: "'f expr \<Rightarrow> bool" where
  "integer_literals (IntLit n) = (0 \<le> n \<and> n \<le> INT_MAX)"
| "integer_literals (FltLit v) = False"
| "integer_literals (Neg e) = integer_literals e"
| "integer_literals (Bin b l r) = (integer_literals l \<and> integer_literals r)"
| "integer_literals (Paren e) = integer_literals e"

text \<open>The scanning loop stops in front of \<open>rest\<close>.\<close>

definition ends_literal :: "string \<Rightarrow> bool" where
  "ends_literal rest = (\<not> (isdigit (data_at rest) \<or> data_at rest = CHR ''_'' \<or> data_at rest = CHR ''.''))"

text \<open>
  The grouping that the lexer's precedences give: the level of an operator is the
  \<^verbatim>\<open>precedence\<close> of its token (lines 112-164, lemma \<open>binop_token_fields\<close> below), that of
  unary minus is 5 (line 125), and a tree is grouped accordingly when
  writing it out needs no parentheses: the left operand of a left-associative operator is
  at least as tight as the operator and the right operand tighter; for \<^verbatim>\<open>^\<close>, the only
  right-associative operator, it is the other way round. Unary minus stands directly in
  front of a literal. Parentheses and \<^verbatim>\<open>%\<close> are left out of this grouping.
\<close>

definition binop_level :: "binop \<Rightarrow> nat" where
  "binop_level b =
     (case b of OpAdd \<Rightarrow> 2 | OpSub \<Rightarrow> 2 | OpMul \<Rightarrow> 3 | OpDiv \<Rightarrow> 3 | OpMod \<Rightarrow> 6 | OpPow \<Rightarrow> 4)"

fun program_level :: "'f expr \<Rightarrow> nat" where
  "program_level (IntLit n) = 10"
| "program_level (FltLit v) = 10"
| "program_level (Paren e) = 10"
| "program_level (Neg e) = 5"
| "program_level (Bin b l r) = binop_level b"

fun is_literal :: "'f expr \<Rightarrow> bool" where
  "is_literal (IntLit n) = True"
| "is_literal (FltLit v) = True"
| "is_literal e = False"

fun program_grouping :: "'f expr \<Rightarrow> bool" where
  "program_grouping (IntLit n) = True"
| "program_grouping (FltLit v) = True"
| "program_grouping (Neg e) = is_literal e"
| "program_grouping (Bin b l r) =
     (b \<noteq> OpMod \<and> program_grouping l \<and> program_grouping r \<and>
      (if b = OpPow then binop_level b < program_level l \<and> binop_level b \<le> program_level r
       else binop_level b \<le> program_level l \<and> binop_level b < program_level r))"
| "program_grouping (Paren e) = False"

text \<open>
  A stack is undisturbed by an expression of level \<open>lv\<close> when no operator of the expression
  pops its top.
\<close>

definition undisturbed :: "nat \<Rightarrow> 'f token list \<Rightarrow> bool" where
  "undisturbed lv stack =
     (stack = [] \<or> precedence (hd stack) < lv \<or> (lv = 4 \<and> precedence (hd stack) = 4) \<or> 10 \<le> lv)"


text \<open>
  The grouping of the specification's testable property: power binds tighter than modulo,
  modulo tighter than unary minus, then multiplication and division, then addition and
  subtraction; \<^verbatim>\<open>^\<close> associates to the right and the other operators to the left; a
  parenthesised expression is an operand like a literal.
\<close>

definition claimed_binop_level :: "binop \<Rightarrow> nat" where
  "claimed_binop_level b =
     (case b of OpAdd \<Rightarrow> 1 | OpSub \<Rightarrow> 1 | OpMul \<Rightarrow> 2 | OpDiv \<Rightarrow> 2 | OpMod \<Rightarrow> 4 | OpPow \<Rightarrow> 5)"

fun claimed_level :: "'f expr \<Rightarrow> nat" where
  "claimed_level (IntLit n) = 6"
| "claimed_level (FltLit v) = 6"
| "claimed_level (Paren e) = 6"
| "claimed_level (Neg e) = 3"
| "claimed_level (Bin b l r) = claimed_binop_level b"

fun claimed_grouping :: "'f expr \<Rightarrow> bool" where
  "claimed_grouping (IntLit n) = True"
| "claimed_grouping (FltLit v) = True"
| "claimed_grouping (Neg e) = (claimed_grouping e \<and> 3 \<le> claimed_level e)"
| "claimed_grouping (Bin b l r) =
     (claimed_grouping l \<and> claimed_grouping r \<and>
      (if b = OpPow then claimed_binop_level b < claimed_level l \<and> claimed_binop_level b \<le> claimed_level r
       else claimed_binop_level b \<le> claimed_level l \<and> claimed_binop_level b < claimed_level r))"
| "claimed_grouping (Paren e) = claimed_grouping e"

section \<open>Evaluating the definitions on given input\<close>

lemmas lex_run =
  lexana_lex_def lex_for.simps lex_again.simps lex_token_def data_at_def is_space_def isdigit_def number_token_def
  stoi_def digit_val_def INT_MAX_def i32_token_def f32_token_def

lemmas token_fields =
  token_init_def lpa_token_def rpa_token_def add_token_def unary_token_def sub_token_def
  div_token_def mul_token_def mod_token_def exp_token_def i32_token_def f32_token_def

lemmas run =
  evaluate_def shuntingYard_def shunting_step_def compute_def compute_token_def token_fields

section \<open>The lexer on minus signs and literals\<close>

lemma lex_token_unary_minus:
  "data_at cs = CHR ''-'' \<Longrightarrow> minus_is_unary formatTokens \<Longrightarrow>
     lex_token ops cs formatTokens = Inr (unary_token ops, tl cs)"
  by (simp add: lex_token_def)

lemma scan_number_type:
  "scan_number cs ty fs = Inr (ty', fs', rest) \<Longrightarrow>
     (ty' = t_f32) = (ty = t_f32 \<or> CHR ''.'' \<in> set (consumed cs rest))
     \<and> (ty' = t_f32 \<or> ty' = ty)
     \<and> fs' = fs @ filter (\<lambda>c. c \<noteq> CHR ''_'') (consumed cs rest)"
proof (induction cs ty fs rule: scan_number.induct)
  case (1 ty fs)
  then show ?case by (simp add: consumed_def)
next
  case (2 c cs ty fs)
  show ?case
  proof (cases "isdigit c \<or> c = CHR ''_'' \<or> c = CHR ''.''")
    case False
    with "2.prems" show ?thesis by (auto simp: consumed_def)
  next
    case True
    with "2.prems" obtain ty1 fs1 where rec: "scan_number cs ty1 fs1 = Inr (ty', fs', rest)"
      by (auto split: if_splits)
    then have "length rest \<le> length cs"
      by (rule scan_number_length)
    then have cons: "consumed (c # cs) rest = c # consumed cs rest"
      by (simp add: consumed_def Suc_diff_le)
    from True "2.prems" "2.IH" show ?thesis
      unfolding cons by (auto split: if_splits simp: isdigit_def)
  qed
qed

lemma number_token_type:
  "number_token ops ty fs = Inr t \<Longrightarrow> ttype t = ty"
  by (auto simp: number_token_def token_init_def split: if_splits option.splits)

lemma lex_token_literal_type:
  assumes "isdigit (data_at cs) \<or> data_at cs = CHR ''.''"
    and "lex_token ops cs formatTokens = Inr (t, rest)"
  shows "(ttype t = t_f32) = (CHR ''.'' \<in> set (consumed cs rest))
    \<and> (ttype t \<noteq> t_f32 \<longrightarrow> ttype t = t_i32)"
proof (cases "isdigit (data_at cs)")
  case True
  with assms(2) obtain ty fs where scan: "scan_number cs t_i32 [] = Inr (ty, fs, rest)"
    and tok: "number_token ops ty fs = Inr t"
    by (auto simp: lex_token_digit split: sum.splits prod.splits)
  from scan_number_type [OF scan] number_token_type [OF tok] show ?thesis
    by auto
next
  case False
  with assms(1) have dot: "data_at cs = CHR ''.''"
    by simp
  then obtain cs' where cs: "cs = CHR ''.'' # cs'"
    by (cases cs) (auto simp: data_at_def)
  from dot assms(2) obtain ty fs where scan: "scan_number cs' t_f32 ''.'' = Inr (ty, fs, rest)"
    and tok: "number_token ops ty fs = Inr t"
    by (auto simp: lex_token_dot cs split: sum.splits prod.splits if_splits)
  from scan have "length rest \<le> length cs'"
    by (rule scan_number_length)
  then have "consumed cs rest = CHR ''.'' # consumed cs' rest"
    by (simp add: consumed_def cs Suc_diff_le)
  with scan_number_type [OF scan] number_token_type [OF tok] show ?thesis
    by auto
qed

section \<open>White space at the end of a line\<close>

text \<open>
  No token takes a trailing white-space character with it, so the loop always comes to
  skip it, and then reads past the end: every line that ends in white space ends the
  process in the lexer.
\<close>

lemma scan_number_trailing_space:
  "scan_number cs ty fs = Inr (ty', fs', rest) \<Longrightarrow> cs \<noteq> [] \<Longrightarrow> is_space (last cs) \<Longrightarrow>
     rest \<noteq> [] \<and> last rest = last cs"
proof (induction cs ty fs rule: scan_number.induct)
  case (1 ty fs)
  then show ?case by simp
next
  case (2 c cs ty fs)
  show ?case
  proof (cases "isdigit c \<or> c = CHR ''_'' \<or> c = CHR ''.''")
    case False
    with "2.prems" show ?thesis by auto
  next
    case True
    then have "\<not> is_space c"
      by (auto simp: is_space_def isdigit_def)
    with "2.prems" have cs: "cs \<noteq> []" "is_space (last cs)" "last (c # cs) = last cs"
      by (auto split: if_splits)
    from True "2.prems"(1) obtain ty1 fs1 where "scan_number cs ty1 fs1 = Inr (ty', fs', rest)"
      by (auto split: if_splits)
    with True "2.IH" "2.prems"(1) cs show ?thesis
      by (auto split: if_splits)
  qed
qed

lemma lex_token_trailing_space:
  assumes "lex_token ops cs toks = Inr (t, rest)" and "cs \<noteq> []" and "is_space (last cs)"
    and "\<not> is_space (data_at cs)"
  shows "rest \<noteq> [] \<and> last rest = last cs"
proof -
  from assms(2) obtain c cs' where cs: "cs = c # cs'"
    by (cases cs) auto
  then have c: "data_at cs = c" "tl cs = cs'"
    by (simp_all add: data_at_def)
  with assms(3,4) cs have tail: "cs' \<noteq> []" "last cs' = last cs" "is_space (last cs')"
    by (auto split: if_splits)
  consider (punct) "c \<in> set ''()+-/*x%^''" | (digit) "isdigit c" | (dot) "c = CHR ''.''"
    | (other) "c \<notin> set ''()+-/*x%^.''" "\<not> isdigit c"
    by auto
  then show ?thesis
  proof cases
    case punct
    with assms(1) c have "rest = cs'"
      using lex_token_punct [of cs ops toks t rest] by simp
    with tail show ?thesis by simp
  next
    case digit
    with assms(1) c obtain ty fs where "scan_number cs t_i32 [] = Inr (ty, fs, rest)"
      by (auto simp: lex_token_digit split: sum.splits prod.splits)
    then show ?thesis
      using assms(2,3) by (rule scan_number_trailing_space)
  next
    case dot
    with assms(1) c obtain ty fs where "scan_number cs' t_f32 ''.'' = Inr (ty, fs, rest)"
      by (auto simp: lex_token_dot split: sum.splits prod.splits if_splits)
    from scan_number_trailing_space [OF this tail(1,3)] tail(2) show ?thesis
      by simp
  next
    case other
    with assms(1) c show ?thesis
      using lex_token_other [of cs ops toks] by simp
  qed
qed

lemma lex_again_end:
  "lex_again ops [] toks = Inl (Unexpected (CHR 0x00))"
proof -
  have "lex_token ops [] toks = Inl (Unexpected (data_at []))"
    by (rule lex_token_other) (simp_all add: data_at_def isdigit_def)
  moreover have "\<not> is_space (data_at [])"
    by (simp add: data_at_def is_space_def)
  ultimately show ?thesis
    by (simp add: lex_again_token data_at_def)
qed

lemma lex_again_trailing_space:
  "cs \<noteq> [] \<Longrightarrow> is_space (last cs) \<Longrightarrow> \<exists>e. lex_again ops cs toks = Inl e"
proof (induction "length cs" arbitrary: cs toks rule: less_induct)
  case less
  show ?case
  proof (cases "is_space (data_at cs)")
    case True
    from less.prems(1) obtain c cs' where cs: "cs = c # cs'"
      by (cases cs) auto
    from True have step: "lex_again ops cs toks = lex_again ops cs' toks"
      by (simp add: lex_again_space cs)
    show ?thesis
    proof (cases "cs' = []")
      case True
      with step show ?thesis
        by (simp add: lex_again_end)
    next
      case False
      with less.prems(2) cs have "is_space (last cs')"
        by simp
      with less.hyps [of cs' toks] False cs obtain e where "lex_again ops cs' toks = Inl e"
        by auto
      with step show ?thesis
        by simp
    qed
  next
    case False
    then have step: "lex_again ops cs toks =
        (case lex_token ops cs toks of
           Inl e \<Rightarrow> Inl e
         | Inr (t, rest) \<Rightarrow> lex_for ops rest (toks @ [t]))"
      by (rule lex_again_token)
    show ?thesis
    proof (cases "lex_token ops cs toks")
      case (Inl e)
      with step show ?thesis
        by simp
    next
      case (Inr p)
      then obtain t rest where tok: "lex_token ops cs toks = Inr (t, rest)"
        by (cases p) auto
      from lex_token_trailing_space [OF tok less.prems False]
      have rest: "rest \<noteq> []" "is_space (last rest)"
        using less.prems(2) by simp_all
      from tok have "length rest < length cs"
        by (rule lex_token_length)
      from less.hyps [OF this rest] obtain e where e: "lex_again ops rest (toks @ [t]) = Inl e"
        by blast
      with step tok rest(1) show ?thesis
        by (simp add: lex_for_nonempty)
    qed
  qed
qed

lemma lexana_lex_trailing_space:
  assumes "line \<noteq> []" and "is_space (last line)"
  shows "\<exists>e. lexana_lex ops line = Inl e"
  using assms lex_again_trailing_space [of line ops "[]"]
  by (simp add: lexana_lex_def lex_for_nonempty)

section \<open>What the reordering does to its tokens\<close>

lemma pop_operators_set:
  "pop_operators o1 stack queue = (stack', queue') \<Longrightarrow>
     set stack' \<subseteq> set stack \<union> set queue \<and> set queue' \<subseteq> set stack \<union> set queue"
  by (induction o1 stack queue rule: pop_operators.induct) (auto split: if_splits)

lemma pop_to_lpa_set:
  "pop_to_lpa stack queue match = (stack', queue', match') \<Longrightarrow>
     set stack' \<subseteq> set stack \<union> set queue \<and> set queue' \<subseteq> set stack \<union> set queue"
  by (induction stack queue match rule: pop_to_lpa.induct) (auto split: if_splits)

lemma pop_remaining_set:
  "set (snd (pop_remaining stack queue)) \<subseteq> set stack \<union> set queue"
  by (induction stack queue rule: pop_remaining.induct) auto

lemma shunting_step_operator:
  "ttype t \<in> {t_add, t_sub, t_mul, t_div, t_mod, t_exp} \<Longrightarrow>
     shunting_step t queue stack =
       (case pop_operators t stack queue of (stack', queue') \<Rightarrow> Inr (queue', t # stack'))"
  by (auto simp: shunting_step_def)

lemma shunting_step_rpa:
  "ttype t = t_rpa \<Longrightarrow>
     shunting_step t queue stack =
       (case pop_to_lpa stack queue False of
          (stack', queue', match) \<Rightarrow>
            if \<not> match \<and> stack' = [] then Inl RightParenthesisError
            else Inr (queue', if stack' \<noteq> [] then tl stack' else stack'))"
  by (simp add: shunting_step_def)

lemma shunting_step_set:
  assumes "shunting_step t queue stack = Inr (queue', stack')"
  shows "set queue' \<union> set stack' \<subseteq> insert t (set queue \<union> set stack)"
proof -
  consider (lit) "ttype t = t_i32 \<or> ttype t = t_f32" | (lpa) "ttype t = t_lpa"
    | (rpa) "ttype t = t_rpa" | (nil) "ttype t = t_nil"
    | (op) "ttype t \<in> {t_add, t_sub, t_mul, t_div, t_mod, t_exp}"
    by (cases "ttype t") auto
  then show ?thesis
  proof cases
    case lit
    with assms have "queue' = queue @ [t]" "stack' = stack"
      by (auto simp: shunting_step_def)
    then show ?thesis by auto
  next
    case lpa
    with assms have "queue' = queue" "stack' = t # stack"
      by (auto simp: shunting_step_def)
    then show ?thesis by auto
  next
    case rpa
    obtain st q m where p: "pop_to_lpa stack queue False = (st, q, m)"
      by (cases "pop_to_lpa stack queue False") auto
    with assms rpa have "queue' = q" "stack' = tl st \<or> stack' = st"
      by (auto simp: shunting_step_rpa split: if_splits)
    moreover have "set (tl st) \<subseteq> set st"
      by (cases st) auto
    ultimately show ?thesis
      using pop_to_lpa_set [OF p] by blast
  next
    case nil
    with assms show ?thesis
      by (simp add: shunting_step_def)
  next
    case op
    obtain st q where p: "pop_operators t stack queue = (st, q)"
      by (cases "pop_operators t stack queue") auto
    with assms op have "queue' = q" "stack' = t # st"
      by (simp_all add: shunting_step_operator)
    then show ?thesis
      using pop_operators_set [OF p] by auto
  qed
qed


lemma shunting_loop_set:
  "set (snd (shunting_loop tokens queue stack)) \<subseteq> set tokens \<union> set queue \<union> set stack"
proof (induction tokens arbitrary: queue stack)
  case Nil
  then show ?case
    using pop_remaining_set [of stack queue] by auto
next
  case (Cons t tokens)
  show ?case
  proof (cases "shunting_step t queue stack")
    case (Inl d)
    then show ?thesis by simp
  next
    case (Inr p)
    then obtain queue' stack' where s: "shunting_step t queue stack = Inr (queue', stack')"
      by (cases p) auto
    have "set (snd (shunting_loop tokens queue' stack')) \<subseteq> set tokens \<union> set queue' \<union> set stack'"
      by (rule Cons.IH)
    moreover have "shunting_loop (t # tokens) queue stack = shunting_loop tokens queue' stack'"
      by (simp add: s)
    ultimately show ?thesis
      using shunting_step_set [OF s] by auto
  qed
qed

lemma pop_remaining_diagnostic:
  "fst (pop_remaining stack queue) = Some d \<Longrightarrow> snd (pop_remaining stack queue) = []"
  by (induction stack queue rule: pop_remaining.induct) (auto split: if_splits)

lemma shunting_loop_diagnostic:
  "fst (shunting_loop tokens queue stack) = Some d \<Longrightarrow> snd (shunting_loop tokens queue stack) = []"
proof (induction tokens arbitrary: queue stack)
  case Nil
  then show ?case
    by (simp add: pop_remaining_diagnostic)
next
  case (Cons t tokens)
  show ?case
  proof (cases "shunting_step t queue stack")
    case (Inl d)
    then show ?thesis by simp
  next
    case (Inr p)
    then obtain queue' stack' where s: "shunting_step t queue stack = Inr (queue', stack')"
      by (cases p) auto
    with Cons.prems Cons.IH [of queue' stack'] show ?thesis
      by simp
  qed
qed


section \<open>The pipeline on a grouped expression\<close>

lemma undisturbed_mono:
  "undisturbed p stack \<Longrightarrow> p \<le> lv \<Longrightarrow> undisturbed lv stack"
  by (auto simp: undisturbed_def)

lemma pop_operators_all:
  assumes "\<forall>o2 \<in> set pend. (\<not> rAssociative o1 \<and> precedence o1 \<le> precedence o2)
              \<or> (rAssociative o1 \<and> precedence o1 < precedence o2)"
  shows "pop_operators o1 (pend @ stack) queue = pop_operators o1 stack (queue @ pend)"
  using assms by (induction pend arbitrary: queue) auto

lemma pop_operators_stop:
  assumes "stack = [] \<or> \<not> ((\<not> rAssociative o1 \<and> precedence o1 \<le> precedence (hd stack))
              \<or> (rAssociative o1 \<and> precedence o1 < precedence (hd stack)))"
  shows "pop_operators o1 stack queue = (stack, queue)"
  using assms by (cases stack) auto

lemma binop_token_fields:
  "ttype (binop_token ops b) \<in> {t_add, t_sub, t_mul, t_div, t_mod, t_exp}"
  "rAssociative (binop_token ops b) = (b = OpPow)"
  "precedence (binop_token ops b) = binop_level b"
  "\<not> unary (binop_token ops b)"
  by (cases b; simp add: binop_token_def binop_level_def token_fields)+

lemma binop_level_pow:
  "binop_level OpPow = 4" "b \<noteq> OpPow \<Longrightarrow> binop_level b \<noteq> 4" "binop_level b < 10"
  by (cases b; simp add: binop_level_def)+

lemma shunting_step_literal:
  "ttype t = t_i32 \<or> ttype t = t_f32 \<Longrightarrow> shunting_step t queue stack = Inr (queue @ [t], stack)"
  by (auto simp: shunting_step_def)

lemma shunting_step_pushes:
  "ttype t \<in> {t_add, t_sub, t_mul, t_div, t_mod, t_exp} \<Longrightarrow>
     pop_operators t stack queue = (stack', queue') \<Longrightarrow>
     shunting_step t queue stack = Inr (queue', t # stack')"
  by (simp add: shunting_step_operator)


lemma literal_tokens:
  assumes "is_literal e"
  obtains t where "infix_tokens ops e = [t]" "postfix_tokens ops e = [t]"
    "ttype t = t_i32 \<or> ttype t = t_f32"
  using assms by (cases e) (auto simp: token_fields)

lemma shunting_expression:
  assumes "program_grouping e" and "undisturbed (program_level e) stack"
  shows "\<exists>pre pend.
     (\<forall>tokens queue. shunting_loop (infix_tokens ops e @ tokens) queue stack
        = shunting_loop tokens (queue @ pre) (pend @ stack))
     \<and> pre @ pend = postfix_tokens ops e
     \<and> (\<forall>o2 \<in> set pend. ttype o2 \<noteq> t_lpa \<and> program_level e \<le> precedence o2)"
  using assms
proof (induction e arbitrary: stack)
  case (IntLit n)
  have "ttype (i32_token ops n) = t_i32"
    by (simp add: token_fields)
  then have "\<forall>tokens queue. shunting_loop (infix_tokens ops (IntLit n) @ tokens) queue stack
      = shunting_loop tokens (queue @ [i32_token ops n]) ([] @ stack)"
    by (simp add: shunting_step_literal)
  then show ?case
    by (intro exI [of _ "[i32_token ops n]"] exI [of _ "[]"]) simp
next
  case (FltLit v)
  have "ttype (f32_token ops v) = t_f32"
    by (simp add: token_fields)
  then have "\<forall>tokens queue. shunting_loop (infix_tokens ops (FltLit v) @ tokens) queue stack
      = shunting_loop tokens (queue @ [f32_token ops v]) ([] @ stack)"
    by (simp add: shunting_step_literal)
  then show ?case
    by (intro exI [of _ "[f32_token ops v]"] exI [of _ "[]"]) simp
next
  case (Neg e)
  then have "is_literal e"
    by simp
  then obtain t where t: "infix_tokens ops e = [t]" "postfix_tokens ops e = [t]"
    "ttype t = t_i32 \<or> ttype t = t_f32"
    by (rule literal_tokens)
  let ?m = "unary_token ops"
  have m: "ttype ?m = t_sub" "\<not> rAssociative ?m" "precedence ?m = 5"
    by (simp_all add: token_fields)
  from Neg.prems(2) have "stack = [] \<or> precedence (hd stack) < 5"
    by (simp add: undisturbed_def)
  with m have "pop_operators ?m stack queue = (stack, queue)" for queue
    by (intro pop_operators_stop) auto
  with m have "shunting_step ?m queue stack = Inr (queue, ?m # stack)" for queue
    by (intro shunting_step_pushes) auto
  with t have "\<forall>tokens queue. shunting_loop (infix_tokens ops (Neg e) @ tokens) queue stack
      = shunting_loop tokens (queue @ [t]) ([?m] @ stack)"
    by (simp add: shunting_step_literal)
  moreover have "[t] @ [?m] = postfix_tokens ops (Neg e)"
    by (simp add: t)
  moreover have "\<forall>o2 \<in> set [?m]. ttype o2 \<noteq> t_lpa \<and> program_level (Neg e) \<le> precedence o2"
    by (simp add: m)
  ultimately show ?case
    by blast
next
  case (Bin b l r)
  let ?o1 = "binop_token ops b"
  let ?p = "binop_level b"
  have o1: "ttype ?o1 \<in> {t_add, t_sub, t_mul, t_div, t_mod, t_exp}"
    "rAssociative ?o1 = (b = OpPow)" "precedence ?o1 = ?p"
    by (rule binop_token_fields)+
  from Bin.prems(1) have g: "program_grouping l" "program_grouping r"
    and lv: "if b = OpPow then ?p < program_level l \<and> ?p \<le> program_level r
             else ?p \<le> program_level l \<and> ?p < program_level r"
    by auto
  have pow: "?p = 4" if "b = OpPow"
    using that by (simp add: binop_level_pow)
  from Bin.prems(2) have und: "undisturbed ?p stack"
    by simp
  from lv have "?p \<le> program_level l"
    by (auto split: if_splits)
  with und have "undisturbed (program_level l) stack"
    by (rule undisturbed_mono)
  from Bin.IH(1) [OF g(1) this] obtain pre_l pend_l
    where L: "\<And>tokens queue. shunting_loop (infix_tokens ops l @ tokens) queue stack
        = shunting_loop tokens (queue @ pre_l) (pend_l @ stack)"
      and post_l: "pre_l @ pend_l = postfix_tokens ops l"
      and pend_l: "\<forall>o2 \<in> set pend_l. ttype o2 \<noteq> t_lpa \<and> program_level l \<le> precedence o2"
    by blast
  have "\<forall>o2 \<in> set pend_l. (\<not> rAssociative ?o1 \<and> precedence ?o1 \<le> precedence o2)
      \<or> (rAssociative ?o1 \<and> precedence ?o1 < precedence o2)"
    using pend_l lv o1 by (auto split: if_splits)
  then have pop1: "pop_operators ?o1 (pend_l @ stack) queue = pop_operators ?o1 stack (queue @ pend_l)"
    for queue
    by (rule pop_operators_all)
  have "stack = [] \<or> \<not> ((\<not> rAssociative ?o1 \<and> precedence ?o1 \<le> precedence (hd stack))
      \<or> (rAssociative ?o1 \<and> precedence ?o1 < precedence (hd stack)))"
  proof (cases "b = OpPow")
    case True
    with und pow have "stack = [] \<or> precedence (hd stack) \<le> 4"
      by (auto simp: undisturbed_def)
    with True o1 pow show ?thesis
      by auto
  next
    case False
    have "?p < 10"
      by (rule binop_level_pow)
    with und have "stack = [] \<or> precedence (hd stack) < ?p \<or> ?p = 4"
      by (auto simp: undisturbed_def)
    moreover from False have "?p \<noteq> 4"
      by (rule binop_level_pow)
    ultimately show ?thesis
      using False o1 by auto
  qed
  then have pop2: "pop_operators ?o1 stack queue = (stack, queue)" for queue
    by (rule pop_operators_stop)
  have O: "shunting_step ?o1 queue (pend_l @ stack) = Inr (queue @ pend_l, ?o1 # stack)" for queue
    using o1(1) by (rule shunting_step_pushes) (simp add: pop1 pop2)
  have "undisturbed (program_level r) (?o1 # stack)"
    using lv o1 pow by (auto simp: undisturbed_def split: if_splits)
  from Bin.IH(2) [OF g(2) this] obtain pre_r pend_r
    where R: "\<And>tokens queue. shunting_loop (infix_tokens ops r @ tokens) queue (?o1 # stack)
        = shunting_loop tokens (queue @ pre_r) (pend_r @ ?o1 # stack)"
      and post_r: "pre_r @ pend_r = postfix_tokens ops r"
      and pend_r: "\<forall>o2 \<in> set pend_r. ttype o2 \<noteq> t_lpa \<and> program_level r \<le> precedence o2"
    by blast
  have "\<forall>tokens queue. shunting_loop (infix_tokens ops (Bin b l r) @ tokens) queue stack
      = shunting_loop tokens (queue @ (pre_l @ pend_l @ pre_r)) ((pend_r @ [?o1]) @ stack)"
    by (simp add: L O R)
  moreover have "(pre_l @ pend_l @ pre_r) @ (pend_r @ [?o1]) = postfix_tokens ops (Bin b l r)"
    using post_l post_r by (metis append.assoc postfix_tokens.simps(4))
  moreover have "\<forall>o2 \<in> set (pend_r @ [?o1]). ttype o2 \<noteq> t_lpa \<and> ?p \<le> precedence o2"
    using pend_r lv o1 by (auto split: if_splits)
  ultimately show ?case
    unfolding program_level.simps by blast
next
  case (Paren e)
  then show ?case
    by simp
qed


lemma pop_remaining_all:
  "\<forall>x \<in> set stack. ttype x \<noteq> t_lpa \<Longrightarrow> pop_remaining stack queue = (None, queue @ stack)"
  by (induction stack arbitrary: queue) auto

lemma shuntingYard_expression:
  assumes "program_grouping e"
  shows "shuntingYard (infix_tokens ops e) = (None, postfix_tokens ops e)"
proof -
  have "undisturbed (program_level e) []"
    by (simp add: undisturbed_def)
  with assms obtain pre pend
    where loop: "\<And>tokens queue. shunting_loop (infix_tokens ops e @ tokens) queue []
        = shunting_loop tokens (queue @ pre) (pend @ [])"
      and post: "pre @ pend = postfix_tokens ops e"
      and pend: "\<forall>o2 \<in> set pend. ttype o2 \<noteq> t_lpa \<and> program_level e \<le> precedence o2"
    using shunting_expression [of e "[]" ops] by blast
  from loop [of "[]" "[]"] have "shuntingYard (infix_tokens ops e) = pop_remaining pend pre"
    by (simp add: shuntingYard_def)
  also from pend have "\<dots> = (None, pre @ pend)"
    by (intro pop_remaining_all) blast
  finally show ?thesis
    by (simp add: post)
qed

lemma compute_token_binop:
  "b \<noteq> OpMod \<Longrightarrow>
     compute_token ops (binop_token ops b) (rhs # lhs # stack) = Inr (binop_value ops b lhs rhs # stack)"
  by (cases b) (simp_all add: compute_token_def binop_token_def binop_value_def token_fields)

lemma compute_token_unary:
  "compute_token ops (unary_token ops) (rhs # stack) = Inr (fmul ops rhs (of_long ops (- 1)) # stack)"
  by (simp add: compute_token_def token_fields)

lemma compute_token_i32:
  "compute_token ops (i32_token ops n) stack = Inr (of_long ops n # stack)"
  by (simp add: compute_token_def token_fields)

lemma compute_token_f32:
  "compute_token ops (f32_token ops v) stack = Inr (v # stack)"
  by (simp add: compute_token_def token_fields)

lemma compute_expression:
  assumes "program_grouping e"
  shows "compute_loop ops (postfix_tokens ops e @ formatted) stack
     = compute_loop ops formatted (direct_value ops e # stack)"
  using assms
proof (induction e arbitrary: formatted stack)
  case (IntLit n)
  show ?case
    by (simp add: compute_token_i32)
next
  case (FltLit v)
  show ?case
    by (simp add: compute_token_f32)
next
  case (Neg e)
  then have "is_literal e"
    by simp
  then have "program_grouping e"
    by (cases e) auto
  then have "compute_loop ops (postfix_tokens ops e @ unary_token ops # formatted) stack
      = compute_loop ops (unary_token ops # formatted) (direct_value ops e # stack)"
    by (rule Neg.IH)
  then show ?case
    by (simp add: compute_token_unary)
next
  case (Bin b l r)
  then have g: "b \<noteq> OpMod" "program_grouping l" "program_grouping r"
    by auto
  have "compute_loop ops (postfix_tokens ops (Bin b l r) @ formatted) stack
      = compute_loop ops (postfix_tokens ops l @ postfix_tokens ops r @ binop_token ops b # formatted) stack"
    by simp
  also have "\<dots> = compute_loop ops (postfix_tokens ops r @ binop_token ops b # formatted)
      (direct_value ops l # stack)"
    using g(2) by (rule Bin.IH(1))
  also have "\<dots> = compute_loop ops (binop_token ops b # formatted)
      (direct_value ops r # direct_value ops l # stack)"
    using g(3) by (rule Bin.IH(2))
  also have "\<dots> = compute_loop ops formatted (direct_value ops (Bin b l r) # stack)"
    by (simp add: compute_token_binop [OF g(1)])
  finally show ?case .
next
  case (Paren e)
  then show ?case
    by simp
qed

section \<open>The lexer on a written expression\<close>

lemma digit_char_props:
  assumes "d < 10"
  shows "isdigit (digit_char d)" and "digit_val (digit_char d) = int d"
proof -
  from assms have "d \<in> {0, 1, 2, 3, 4, 5, 6, 7, 8, 9}"
    by auto
  then show "isdigit (digit_char d)" and "digit_val (digit_char d) = int d"
    by (auto simp: digit_char_def isdigit_def digit_val_def)
qed

declare decimal.simps [simp del]

lemma decimal_digits:
  "\<forall>c \<in> set (decimal n). isdigit c"
proof (induction n rule: decimal.induct)
  case (1 n)
  show ?case
  proof (cases "n < 10")
    case True
    then show ?thesis
      by (subst decimal.simps) (simp add: digit_char_props)
  next
    case False
    with 1 show ?thesis
      by (subst decimal.simps) (simp add: digit_char_props)
  qed
qed

lemma decimal_not_empty:
  "decimal n \<noteq> []"
  by (subst decimal.simps) simp

lemma decimal_value:
  "foldl (\<lambda>a c. 10 * a + digit_val c) 0 (decimal n) = int n"
proof (induction n rule: decimal.induct)
  case (1 n)
  show ?case
  proof (cases "n < 10")
    case True
    then show ?thesis
      by (subst decimal.simps) (simp add: digit_char_props)
  next
    case False
    then have "foldl (\<lambda>a c. 10 * a + digit_val c) 0 (decimal n)
        = 10 * int (n div 10) + int (n mod 10)"
      by (subst decimal.simps) (simp add: 1 digit_char_props)
    then show ?thesis
      by (simp add: zdiv_int zmod_int)
  qed
qed

lemma stoi_decimal:
  "int n \<le> INT_MAX \<Longrightarrow> stoi (decimal n) = Some (int n)"
  by (simp add: stoi_def decimal_value)

lemma scan_number_digits:
  assumes "\<forall>c \<in> set ds. isdigit c" and "ends_literal rest"
  shows "scan_number (ds @ rest) ty fs = Inr (ty, fs @ ds, rest)"
  using assms(1)
proof (induction ds arbitrary: fs)
  case Nil
  with assms(2) show ?case
    by (cases rest) (simp_all add: ends_literal_def data_at_def)
next
  case (Cons c ds)
  then have "isdigit c"
    by simp
  with isdigit_not_punct [of c] have "c \<noteq> CHR ''_''" "c \<noteq> CHR ''.''"
    by auto
  with Cons \<open>isdigit c\<close> show ?case
    by simp
qed

lemma lex_token_decimal:
  assumes "int n \<le> INT_MAX" and "ends_literal rest"
  shows "lex_token ops (decimal n @ rest) formatTokens = Inr (i32_token ops (int n), rest)"
proof -
  obtain c cs where d: "decimal n = c # cs"
    using decimal_not_empty [of n] by (cases "decimal n") auto
  with decimal_digits [of n] have "isdigit (data_at (decimal n @ rest))"
    by (simp add: data_at_def)
  moreover have "scan_number (decimal n @ rest) t_i32 [] = Inr (t_i32, decimal n, rest)"
    using scan_number_digits [OF decimal_digits assms(2), of n t_i32 "[]"] by simp
  moreover have "number_token ops t_i32 (decimal n) = Inr (i32_token ops (int n))"
    using assms(1) by (simp add: number_token_def stoi_decimal i32_token_def)
  ultimately show ?thesis
    by (simp add: lex_token_digit)
qed


lemma written_start:
  assumes "integer_literals e"
  shows "written e \<noteq> []" and "\<not> is_space (data_at (written e @ rest))"
proof -
  have "written e \<noteq> [] \<and> (isdigit (hd (written e)) \<or> hd (written e) = CHR ''-'' \<or> hd (written e) = CHR ''('')"
    using assms
  proof (induction e)
    case (IntLit n)
    obtain c cs where "decimal (nat n) = c # cs"
      using decimal_not_empty [of "nat n"] by (cases "decimal (nat n)") auto
    with decimal_digits [of "nat n"] show ?case
      by simp
  qed simp_all
  then show "written e \<noteq> []" and "\<not> is_space (data_at (written e @ rest))"
    by (cases "written e"; auto simp: data_at_def is_space_def isdigit_def)+
qed

lemma infix_tokens_end:
  "infix_tokens ops e \<noteq> [] \<and> ttype (last (infix_tokens ops e)) \<in> {t_i32, t_f32, t_rpa}"
  by (induction e) (simp_all add: token_fields)

lemma binary_after_operand:
  "\<not> minus_is_unary (formatTokens @ infix_tokens ops e)"
  using infix_tokens_end [of ops e] by (auto simp: minus_is_unary_def)

lemma lex_token_binop:
  assumes "\<not> minus_is_unary formatTokens"
  shows "lex_token ops (binop_char b # cs) formatTokens = Inr (binop_token ops b, cs)"
  using assms by (cases b) (simp_all add: lex_token_def binop_char_def binop_token_def data_at_def)

lemma lex_again_binop:
  assumes "\<not> minus_is_unary formatTokens"
  shows "lex_again ops (binop_char b # cs) formatTokens = lex_for ops cs (formatTokens @ [binop_token ops b])"
proof -
  have "\<not> is_space (data_at (binop_char b # cs))"
    by (cases b) (simp_all add: binop_char_def data_at_def is_space_def)
  then show ?thesis
    by (simp add: lex_again_token lex_token_binop [OF assms])
qed

lemma ends_literal_simps:
  "ends_literal (binop_char b # cs)" "ends_literal (CHR '')'' # cs)" "ends_literal []"
  by (cases b; simp add: ends_literal_def binop_char_def data_at_def isdigit_def)+


lemma lex_for_written:
  "integer_literals e \<Longrightarrow> lex_for ops (written e @ rest) toks = lex_again ops (written e @ rest) toks"
  using written_start(1) [of e] by (simp add: lex_for_nonempty)

lemma lex_written:
  assumes "integer_literals e" and "minus_is_unary formatTokens" and "ends_literal rest"
  shows "lex_again ops (written e @ rest) formatTokens
     = lex_for ops rest (formatTokens @ infix_tokens ops e)"
  using assms
proof (induction e arbitrary: formatTokens rest)
  case (IntLit n)
  then have n: "int (nat n) = n" "int (nat n) \<le> INT_MAX"
    by simp_all
  have "\<not> is_space (data_at (decimal (nat n) @ rest))"
    using written_start(2) [OF IntLit.prems(1), of rest] by simp
  moreover have "lex_token ops (decimal (nat n) @ rest) formatTokens = Inr (i32_token ops n, rest)"
    using lex_token_decimal [OF n(2) IntLit.prems(3), of ops formatTokens] n(1) by simp
  ultimately show ?case
    by (simp add: lex_again_token)
next
  case (FltLit v)
  then show ?case
    by simp
next
  case (Neg e)
  then have e: "integer_literals e"
    by simp
  have "lex_again ops (written (Neg e) @ rest) formatTokens
      = lex_for ops (written e @ rest) (formatTokens @ [unary_token ops])"
    using Neg.prems(2) by (simp add: lex_again_token is_space_def data_at_def lex_token_def)
  also have "\<dots> = lex_again ops (written e @ rest) (formatTokens @ [unary_token ops])"
    using e by (rule lex_for_written)
  also have "\<dots> = lex_for ops rest ((formatTokens @ [unary_token ops]) @ infix_tokens ops e)"
    using e _ Neg.prems(3) by (rule Neg.IH) (simp add: minus_is_unary_def token_fields)
  finally show ?case
    by simp
next
  case (Bin b l r)
  then have lr: "integer_literals l" "integer_literals r"
    by simp_all
  let ?op = "binop_token ops b"
  have "lex_again ops (written (Bin b l r) @ rest) formatTokens
      = lex_again ops (written l @ binop_char b # written r @ rest) formatTokens"
    by simp
  also have "\<dots> = lex_for ops (binop_char b # written r @ rest) (formatTokens @ infix_tokens ops l)"
    using lr(1) Bin.prems(2) by (rule Bin.IH(1)) (rule ends_literal_simps)
  also have "\<dots> = lex_again ops (binop_char b # written r @ rest) (formatTokens @ infix_tokens ops l)"
    by (simp add: lex_for_nonempty)
  also have "\<dots> = lex_for ops (written r @ rest) ((formatTokens @ infix_tokens ops l) @ [?op])"
    using binary_after_operand by (rule lex_again_binop)
  also have "\<dots> = lex_again ops (written r @ rest) ((formatTokens @ infix_tokens ops l) @ [?op])"
    using lr(2) by (rule lex_for_written)
  also have "\<dots> = lex_for ops rest (((formatTokens @ infix_tokens ops l) @ [?op]) @ infix_tokens ops r)"
    using lr(2) _ Bin.prems(3)
  proof (rule Bin.IH(2))
    show "minus_is_unary ((formatTokens @ infix_tokens ops l) @ [?op])"
      using binop_token_fields(1) [of ops b] by (auto simp: minus_is_unary_def)
  qed
  finally show ?case
    by simp
next
  case (Paren e)
  then have e: "integer_literals e"
    by simp
  have "lex_again ops (written (Paren e) @ rest) formatTokens
      = lex_for ops (written e @ CHR '')'' # rest) (formatTokens @ [lpa_token ops])"
    by (simp add: lex_again_token is_space_def data_at_def lex_token_def)
  also have "\<dots> = lex_again ops (written e @ CHR '')'' # rest) (formatTokens @ [lpa_token ops])"
    using e by (rule lex_for_written)
  also have "\<dots> = lex_for ops (CHR '')'' # rest) ((formatTokens @ [lpa_token ops]) @ infix_tokens ops e)"
    using e
  proof (rule Paren.IH)
    show "minus_is_unary (formatTokens @ [lpa_token ops])"
      by (simp add: minus_is_unary_def token_fields)
    show "ends_literal (CHR '')'' # rest)"
      by (rule ends_literal_simps)
  qed
  also have "\<dots> = lex_for ops rest (((formatTokens @ [lpa_token ops]) @ infix_tokens ops e) @ [rpa_token ops])"
    by (simp add: lex_for_nonempty lex_again_token is_space_def data_at_def lex_token_def)
  finally show ?case
    by simp
qed

lemma lexana_lex_written:
  assumes "integer_literals e"
  shows "lexana_lex ops (written e) = Inr (infix_tokens ops e)"
proof -
  have "lex_again ops (written e @ []) [] = lex_for ops [] ([] @ infix_tokens ops e)"
    using assms by (rule lex_written) (simp_all add: minus_is_unary_def ends_literal_simps)
  with lex_for_written [OF assms, of ops "[]" "[]"] show ?thesis
    by (simp add: lexana_lex_def lex_for.simps)
qed

section \<open>The stages on the lines of the claims\<close>

lemma lex_2_pow_3_pow_2:
  "lexana_lex ops ''2^3^2'' =
     Inr [i32_token ops 2, exp_token ops, i32_token ops 3, exp_token ops, i32_token ops 2]"
  by (simp add: lex_run)

lemma shuntingYard_2_pow_3_pow_2:
  "shuntingYard [i32_token ops 2, exp_token ops, i32_token ops 3, exp_token ops, i32_token ops 2] =
     (None, [i32_token ops 2, i32_token ops 3, i32_token ops 2, exp_token ops, exp_token ops])"
  by (simp add: shuntingYard_def shunting_step_def token_fields)

lemma compute_2_3_2_pow_pow:
  "compute ops [i32_token ops 2, i32_token ops 3, i32_token ops 2, exp_token ops, exp_token ops] =
     Inr (fpow ops (of_long ops 2) (fpow ops (of_long ops 3) (of_long ops 2)))"
  by (simp add: compute_def compute_token_def token_fields)

lemma lex_minus_3_pow_2:
  "lexana_lex ops ''-3^2'' = Inr [unary_token ops, i32_token ops 3, exp_token ops, i32_token ops 2]"
  by (simp add: lex_run minus_is_unary_def)

lemma shuntingYard_minus_3_pow_2:
  "shuntingYard [unary_token ops, i32_token ops 3, exp_token ops, i32_token ops 2] =
     (None, [i32_token ops 3, unary_token ops, i32_token ops 2, exp_token ops])"
  by (simp add: shuntingYard_def shunting_step_def token_fields)

lemma compute_3_minus_2_pow:
  "compute ops [i32_token ops 3, unary_token ops, i32_token ops 2, exp_token ops] =
     Inr (fpow ops (fmul ops (of_long ops 3) (of_long ops (- 1))) (of_long ops 2))"
  by (simp add: compute_def compute_token_def token_fields)

lemma lex_3_14:
  "lexana_lex ops ''3.14'' =
     (case stof ops ''3.14'' of None \<Rightarrow> Inl StofOutOfRange | Some v \<Rightarrow> Inr [f32_token ops v])"
  by (simp add: lex_run split: option.split)

lemma lex_3_000:
  "lexana_lex ops ''3_000'' = Inr [i32_token ops 3000]"
  by (simp add: lex_run)

lemma lex_3_1_4:
  "lexana_lex ops ''3.1.4'' = Inl RedefinitionOfFloat"
  by (simp add: lex_run)

lemma lex_1_plus_2:
  "lexana_lex ops ''1+2'' = Inr [i32_token ops 1, add_token ops, i32_token ops 2]"
  by (simp add: lex_run)

lemma shuntingYard_1_plus_2:
  "shuntingYard [i32_token ops 1, add_token ops, i32_token ops 2] =
     (None, [i32_token ops 1, i32_token ops 2, add_token ops])"
  by (simp add: shuntingYard_def shunting_step_def token_fields)

lemma compute_1_2_plus:
  "compute ops [i32_token ops 1, i32_token ops 2, add_token ops] =
     Inr (fadd ops (of_long ops 1) (of_long ops 2))"
  by (simp add: compute_def compute_token_def token_fields)

lemma lex_rpa_1_plus_2:
  "lexana_lex ops '')1+2'' = Inr [rpa_token ops, i32_token ops 1, add_token ops, i32_token ops 2]"
  by (simp add: lex_run)

lemma shuntingYard_rpa_1_plus_2:
  "shuntingYard [rpa_token ops, i32_token ops 1, add_token ops, i32_token ops 2] =
     (Some RightParenthesisError, [])"
  by (simp add: shuntingYard_def shunting_step_def token_fields)

section \<open>The claims\<close>

text \<open>
  C1, as the code has it. Let a line be lexed to the tokens of an expression that is built
  from literals, unary minus in front of a literal and the binary operators
  \<^verbatim>\<open>+ - * / ^\<close>, without parentheses, and that is grouped by the lexer's precedences: unary
  minus binds tighter than power, power tighter than multiplication and division, these
  tighter than addition and subtraction, \<^verbatim>\<open>^\<close> associating to the right and the others to
  the left. Then the pipeline returns the value of evaluating that expression directly.
  The written form of such an expression is such a line when its literals are integers up
  to \<^verbatim>\<open>INT_MAX\<close>.
\<close>

theorem C1_program_grouping:
  assumes "program_grouping e"
  shows "(\<forall>line. lexana_lex ops line = Inr (infix_tokens ops e) \<longrightarrow>
            evaluate ops line = Inr (direct_value ops e))
     \<and> (integer_literals e \<longrightarrow>
            lexana_lex ops (written e) = Inr (infix_tokens ops e)
            \<and> evaluate ops (written e) = Inr (direct_value ops e))"
proof -
  from assms have "shuntingYard (infix_tokens ops e) = (None, postfix_tokens ops e)"
    by (rule shuntingYard_expression)
  moreover from assms
  have "compute_loop ops (postfix_tokens ops e @ []) [] = compute_loop ops [] [direct_value ops e]"
    by (rule compute_expression)
  ultimately have tokens: "evaluate ops line = Inr (direct_value ops e)"
    if "lexana_lex ops line = Inr (infix_tokens ops e)" for line
    using that by (simp add: evaluate_def compute_def)
  moreover have "lexana_lex ops (written e) = Inr (infix_tokens ops e)" if "integer_literals e"
    using that by (rule lexana_lex_written)
  ultimately show ?thesis
    by blast
qed

theorem C1_program_grouping_witness:
  "program_grouping (Bin OpAdd (IntLit 1) (Bin OpMul (Neg (IntLit 2)) (Bin OpPow (IntLit 3) (IntLit 2))) :: real expr)
   \<and> lexana_lex exact_ops ''1 + -2x3^2''
     = Inr (infix_tokens exact_ops (Bin OpAdd (IntLit 1) (Bin OpMul (Neg (IntLit 2)) (Bin OpPow (IntLit 3) (IntLit 2)))))
   \<and> evaluate exact_ops ''1 + -2x3^2'' = Inr (- 17)
   \<and> integer_literals (Bin OpAdd (IntLit 1) (Bin OpMul (Neg (IntLit 2)) (Bin OpPow (IntLit 3) (IntLit 2))) :: real expr)
   \<and> written (Bin OpAdd (IntLit 1) (Bin OpMul (Neg (IntLit 2)) (Bin OpPow (IntLit 3) (IntLit 2))) :: real expr)
     = ''1+-2*3^2''
   \<and> evaluate exact_ops ''1+-2*3^2'' = Inr (- 17)"
proof -
  let ?e = "Bin OpAdd (IntLit 1) (Bin OpMul (Neg (IntLit 2)) (Bin OpPow (IntLit 3) (IntLit 2))) :: real expr"
  have g: "program_grouping ?e"
    by (simp add: binop_level_def)
  have l: "lexana_lex exact_ops ''1 + -2x3^2'' = Inr (infix_tokens exact_ops ?e)"
    by (simp add: lex_run minus_is_unary_def binop_token_def token_fields)
  have i: "integer_literals ?e"
    by (simp add: INT_MAX_def)
  have w: "written ?e = ''1+-2*3^2''"
    by (simp add: decimal.simps digit_char_def binop_char_def)
  have v: "direct_value exact_ops ?e = - 17"
    by (simp add: binop_value_def exact_ops_def exact_pow_def)
  note inst = C1_program_grouping [OF g, of exact_ops]
  from inst l have "evaluate exact_ops ''1 + -2x3^2'' = Inr (direct_value exact_ops ?e)"
    by blast
  moreover from inst i have "evaluate exact_ops (written ?e) = Inr (direct_value exact_ops ?e)"
    by blast
  ultimately show ?thesis
    using g l i w v by simp
qed

text \<open>
  C1 as the specification words it fails on four lines, each the written form of
  an expression grouped as the specification says. \<^verbatim>\<open>-3^2\<close> is \<open>-(3^2) = -9\<close> when power
  binds tighter than unary minus; the program returns 9. \<^verbatim>\<open>2*(3+4)\<close> is 14; the program
  returns 10, since the \<^verbatim>\<open>+\<close> pops the left parenthesis and then the \<^verbatim>\<open>*\<close>. \<^verbatim>\<open>7%3\<close> is 1
  and \<^verbatim>\<open>--3\<close> is 3; for both the program ends in \<^verbatim>\<open>stack.back()\<close> on an empty stack.
\<close>

theorem C1_counterexample:
  "claimed_grouping (Neg (Bin OpPow (IntLit 3) (IntLit 2)) :: real expr)
   \<and> written (Neg (Bin OpPow (IntLit 3) (IntLit 2)) :: real expr) = ''-3^2''
   \<and> lexana_lex exact_ops ''-3^2'' = Inr (infix_tokens exact_ops (Neg (Bin OpPow (IntLit 3) (IntLit 2))))
   \<and> direct_value exact_ops (Neg (Bin OpPow (IntLit 3) (IntLit 2))) = - 9
   \<and> evaluate exact_ops ''-3^2'' = Inr 9
   \<and> claimed_grouping (Bin OpMul (IntLit 2) (Paren (Bin OpAdd (IntLit 3) (IntLit 4))) :: real expr)
   \<and> written (Bin OpMul (IntLit 2) (Paren (Bin OpAdd (IntLit 3) (IntLit 4))) :: real expr) = ''2*(3+4)''
   \<and> lexana_lex exact_ops ''2*(3+4)''
     = Inr (infix_tokens exact_ops (Bin OpMul (IntLit 2) (Paren (Bin OpAdd (IntLit 3) (IntLit 4)))))
   \<and> direct_value exact_ops (Bin OpMul (IntLit 2) (Paren (Bin OpAdd (IntLit 3) (IntLit 4)))) = 14
   \<and> evaluate exact_ops ''2*(3+4)'' = Inr 10
   \<and> claimed_grouping (Bin OpMod (IntLit 7) (IntLit 3) :: real expr)
   \<and> written (Bin OpMod (IntLit 7) (IntLit 3) :: real expr) = ''7%3''
   \<and> lexana_lex exact_ops ''7%3'' = Inr (infix_tokens exact_ops (Bin OpMod (IntLit 7) (IntLit 3)))
   \<and> direct_value exact_ops (Bin OpMod (IntLit 7) (IntLit 3)) = 1
   \<and> evaluate exact_ops ''7%3'' = Inl EmptyStackAccess
   \<and> claimed_grouping (Neg (Neg (IntLit 3)) :: real expr)
   \<and> written (Neg (Neg (IntLit 3)) :: real expr) = ''--3''
   \<and> lexana_lex exact_ops ''--3'' = Inr (infix_tokens exact_ops (Neg (Neg (IntLit 3))))
   \<and> direct_value exact_ops (Neg (Neg (IntLit 3))) = 3
   \<and> evaluate exact_ops ''--3'' = Inl EmptyStackAccess"
proof -
  have a: "claimed_grouping (Neg (Bin OpPow (IntLit 3) (IntLit 2)) :: real expr)"
    "claimed_grouping (Bin OpMul (IntLit 2) (Paren (Bin OpAdd (IntLit 3) (IntLit 4))) :: real expr)"
    "claimed_grouping (Bin OpMod (IntLit 7) (IntLit 3) :: real expr)"
    "claimed_grouping (Neg (Neg (IntLit 3)) :: real expr)"
    by (simp_all add: claimed_binop_level_def)
  have b: "lexana_lex exact_ops ''-3^2'' = Inr (infix_tokens exact_ops (Neg (Bin OpPow (IntLit 3) (IntLit 2))))"
    by (simp add: lex_minus_3_pow_2 binop_token_def)
  have c: "lexana_lex exact_ops ''2*(3+4)''
      = Inr (infix_tokens exact_ops (Bin OpMul (IntLit 2) (Paren (Bin OpAdd (IntLit 3) (IntLit 4)))))"
    by (simp add: lex_run binop_token_def token_fields)
  have d: "lexana_lex exact_ops ''7%3'' = Inr (infix_tokens exact_ops (Bin OpMod (IntLit 7) (IntLit 3)))"
    by (simp add: lex_run binop_token_def token_fields)
  have e: "lexana_lex exact_ops ''--3'' = Inr (infix_tokens exact_ops (Neg (Neg (IntLit 3))))"
    by (simp add: lex_run minus_is_unary_def token_fields)
  have f: "direct_value exact_ops (Neg (Bin OpPow (IntLit 3) (IntLit 2))) = - 9"
    "direct_value exact_ops (Bin OpMul (IntLit 2) (Paren (Bin OpAdd (IntLit 3) (IntLit 4)))) = 14"
    "direct_value exact_ops (Bin OpMod (IntLit 7) (IntLit 3)) = 1"
    "direct_value exact_ops (Neg (Neg (IntLit 3))) = 3"
    by (simp_all add: binop_value_def exact_ops_def exact_pow_def exact_fmod_def)
  have g: "evaluate exact_ops ''-3^2'' = Inr 9"
    unfolding evaluate_def lex_minus_3_pow_2 by (simp add: run exact_ops_def exact_pow_def)
  have h: "evaluate exact_ops ''2*(3+4)'' = Inr 10"
    unfolding evaluate_def c by (simp add: run binop_token_def exact_ops_def)
  have i: "evaluate exact_ops ''7%3'' = Inl EmptyStackAccess"
    unfolding evaluate_def d by (simp add: run binop_token_def)
  have j: "evaluate exact_ops ''--3'' = Inl EmptyStackAccess"
    unfolding evaluate_def e by (simp add: run)
  have w: "written (Neg (Bin OpPow (IntLit 3) (IntLit 2)) :: real expr) = ''-3^2''"
    "written (Bin OpMul (IntLit 2) (Paren (Bin OpAdd (IntLit 3) (IntLit 4))) :: real expr) = ''2*(3+4)''"
    "written (Bin OpMod (IntLit 7) (IntLit 3) :: real expr) = ''7%3''"
    "written (Neg (Neg (IntLit 3)) :: real expr) = ''--3''"
    by (simp_all add: decimal.simps digit_char_def binop_char_def)
  from a b c d e f g h i j w show ?thesis
    by simp
qed

text \<open>
  C2. A right parenthesis that finds the stack empty gives the right-parenthesis diagnostic
  and the empty sequence, as for \<^verbatim>\<open>3)\<close> and \<^verbatim>\<open>)1+2\<close>. For \<^verbatim>\<open>1+2)\<close> it does not: at
  the right parenthesis the stack holds the \<^verbatim>\<open>+\<close> alone, the loop pops it, which sets
  \<^verbatim>\<open>match\<close>, and leaves the stack empty without having met a left parenthesis; the test
  \<^verbatim>\<open>!match && stack.empty()\<close> then fails, no diagnostic is written, and the sequence
  \<^verbatim>\<open>1 2 +\<close> is returned and evaluated.
\<close>

theorem C2_unmatched_right_parenthesis_not_reported:
  "reorder ops ''3)'' = Inr (Some RightParenthesisError, [])
   \<and> reorder ops '')1+2'' = Inr (Some RightParenthesisError, [])
   \<and> lexana_lex ops ''1+2)''
       = Inr [i32_token ops 1, add_token ops, i32_token ops 2, rpa_token ops]
   \<and> shuntingYard [i32_token ops 1, add_token ops, i32_token ops 2, rpa_token ops]
       = shunting_loop [rpa_token ops] [i32_token ops 1, i32_token ops 2] [add_token ops]
   \<and> ttype (add_token ops) \<noteq> t_lpa
   \<and> pop_to_lpa [add_token ops] [i32_token ops 1, i32_token ops 2] False
       = ([], [i32_token ops 1, i32_token ops 2, add_token ops], True)
   \<and> reorder ops ''1+2)'' = Inr (None, [i32_token ops 1, i32_token ops 2, add_token ops])
   \<and> evaluate ops ''1+2)'' = Inr (fadd ops (of_long ops 1) (of_long ops 2))"
proof -
  have l3: "lexana_lex ops ''3)'' = Inr [i32_token ops 3, rpa_token ops]"
    by (simp add: lex_run)
  have s3: "shuntingYard [i32_token ops 3, rpa_token ops] = (Some RightParenthesisError, [])"
    by (simp add: shuntingYard_def shunting_step_def token_fields)
  have a: "reorder ops ''3)'' = Inr (Some RightParenthesisError, [])"
    by (simp add: reorder_def l3 s3)
  have b: "reorder ops '')1+2'' = Inr (Some RightParenthesisError, [])"
    by (simp add: reorder_def lex_rpa_1_plus_2 shuntingYard_rpa_1_plus_2)
  have l: "lexana_lex ops ''1+2)''
      = Inr [i32_token ops 1, add_token ops, i32_token ops 2, rpa_token ops]"
    by (simp add: lex_run)
  have s: "shuntingYard [i32_token ops 1, add_token ops, i32_token ops 2, rpa_token ops]
      = (None, [i32_token ops 1, i32_token ops 2, add_token ops])"
    by (simp add: shuntingYard_def shunting_step_def token_fields)
  have r: "shunting_loop [rpa_token ops] [i32_token ops 1, i32_token ops 2] [add_token ops]
      = (None, [i32_token ops 1, i32_token ops 2, add_token ops])"
    by (simp add: shunting_step_def token_fields)
  have p: "pop_to_lpa [add_token ops] [i32_token ops 1, i32_token ops 2] False
      = ([], [i32_token ops 1, i32_token ops 2, add_token ops], True)"
    by (simp add: token_fields)
  have n: "ttype (add_token ops) \<noteq> t_lpa"
    by (simp add: token_fields)
  from a b l s r p n show ?thesis
    by (simp add: reorder_def evaluate_def compute_1_2_plus)
qed

text \<open>
  C3. White space before a token is skipped, so \<^verbatim>\<open> 1 + 2\<close> is evaluated as \<^verbatim>\<open>1+2\<close> is.
  White space at the end of the line is not: after it, \<^verbatim>\<open>goto _again\<close> reads \<^verbatim>\<open>data[i]\<close>
  at \<^verbatim>\<open>i == data.size()\<close> without the loop's test, and the null character found there
  ends the process in the \<^verbatim>\<open>default\<close> case. So \<^verbatim>\<open> 1 + 2 \<close> has no value.
\<close>

theorem C3_trailing_white_space_is_fatal:
  "evaluate ops ''1+2'' = Inr (fadd ops (of_long ops 1) (of_long ops 2))
   \<and> evaluate ops '' 1 + 2'' = Inr (fadd ops (of_long ops 1) (of_long ops 2))
   \<and> lexana_lex ops '' 1 + 2 '' = Inl (Unexpected (CHR 0x00))
   \<and> evaluate ops '' 1 + 2 '' = Inl (Unexpected (CHR 0x00))
   \<and> lexana_lex ops ''1+2 '' = Inl (Unexpected (CHR 0x00))"
proof -
  have "lexana_lex ops '' 1 + 2'' = Inr [i32_token ops 1, add_token ops, i32_token ops 2]"
    by (simp add: lex_run)
  moreover have "lexana_lex ops '' 1 + 2 '' = Inl (Unexpected (CHR 0x00))"
    by (simp add: lex_run)
  moreover have "lexana_lex ops ''1+2 '' = Inl (Unexpected (CHR 0x00))"
    by (simp add: lex_run)
  ultimately show ?thesis
    by (simp add: evaluate_def lex_1_plus_2 shuntingYard_1_plus_2 compute_1_2_plus)
qed

text \<open>
  C4. For a binary \<^verbatim>\<open>%\<close> the evaluator pops the right and the left operand and pushes
  nothing: the inner \<^verbatim>\<open>switch\<close> has no case for \<^verbatim>\<open>tokenType::mod\<close>. After the operator
  the stack is two values shorter, and \<^verbatim>\<open>7%3\<close> ends with \<^verbatim>\<open>stack.back()\<close> on an empty
  stack.
\<close>

theorem C4_modulo_pushes_nothing:
  "compute_token ops (mod_token ops) (rhs # lhs # stack) = Inr stack
   \<and> lexana_lex ops ''7%3'' = Inr [i32_token ops 7, mod_token ops, i32_token ops 3]
   \<and> shuntingYard [i32_token ops 7, mod_token ops, i32_token ops 3]
       = (None, [i32_token ops 7, i32_token ops 3, mod_token ops])
   \<and> compute_loop ops [mod_token ops] [of_long ops 3, of_long ops 7] = Inl EmptyStackAccess
   \<and> evaluate ops ''7%3'' = Inl EmptyStackAccess"
proof -
  have a: "compute_token ops (mod_token ops) (rhs # lhs # stack) = Inr stack"
    for rhs lhs :: 'a and stack
    by (simp add: compute_token_def token_fields)
  have b: "lexana_lex ops ''7%3'' = Inr [i32_token ops 7, mod_token ops, i32_token ops 3]"
    by (simp add: lex_run)
  have c: "shuntingYard [i32_token ops 7, mod_token ops, i32_token ops 3]
      = (None, [i32_token ops 7, i32_token ops 3, mod_token ops])"
    by (simp add: shuntingYard_def shunting_step_def token_fields)
  have d: "compute_loop ops [mod_token ops] [of_long ops 3, of_long ops 7] = Inl EmptyStackAccess"
    by (simp add: a)
  have "compute ops [i32_token ops 7, i32_token ops 3, mod_token ops] = Inl EmptyStackAccess"
    by (simp add: compute_def compute_token_def token_fields)
  with a b c d show ?thesis
    by (simp add: evaluate_def)
qed

text \<open>
  C5. \<^verbatim>\<open>)1+2\<close> gives the right-parenthesis diagnostic and the empty sequence. \<^verbatim>\<open>(1+2\<close>
  gives no diagnostic: the \<^verbatim>\<open>+\<close> pops the left parenthesis, whose precedence is 9, into
  the queue, so the final loop finds none on the stack; the sequence returned is
  \<^verbatim>\<open>1 ( 2 +\<close> and the line prints a value. Only a left parenthesis that no operator
  follows, as in \<^verbatim>\<open>(1\<close>, reaches the final loop.
\<close>

theorem C5_open_parenthesis_not_reported:
  "reorder ops '')1+2'' = Inr (Some RightParenthesisError, [])
   \<and> reorder ops ''(1+2''
       = Inr (None, [i32_token ops 1, lpa_token ops, i32_token ops 2, add_token ops])
   \<and> pop_operators (add_token ops) [lpa_token ops] [i32_token ops 1]
       = ([], [i32_token ops 1, lpa_token ops])
   \<and> evaluate ops ''(1+2'' = Inr (fadd ops (of_long ops 1) (of_long ops 2))
   \<and> reorder ops ''(1'' = Inr (Some MismatchedParentheses, [])"
proof -
  have a: "reorder ops '')1+2'' = Inr (Some RightParenthesisError, [])"
    by (simp add: reorder_def lex_rpa_1_plus_2 shuntingYard_rpa_1_plus_2)
  have l: "lexana_lex ops ''(1+2'' = Inr [lpa_token ops, i32_token ops 1, add_token ops, i32_token ops 2]"
    by (simp add: lex_run)
  have s: "shuntingYard [lpa_token ops, i32_token ops 1, add_token ops, i32_token ops 2]
      = (None, [i32_token ops 1, lpa_token ops, i32_token ops 2, add_token ops])"
    by (simp add: shuntingYard_def shunting_step_def token_fields)
  have c: "compute ops [i32_token ops 1, lpa_token ops, i32_token ops 2, add_token ops]
      = Inr (fadd ops (of_long ops 1) (of_long ops 2))"
    by (simp add: compute_def compute_token_def token_fields)
  have p: "pop_operators (add_token ops) [lpa_token ops] [i32_token ops 1]
      = ([], [i32_token ops 1, lpa_token ops])"
    by (simp add: token_fields)
  have l1: "lexana_lex ops ''(1'' = Inr [lpa_token ops, i32_token ops 1]"
    by (simp add: lex_run)
  have s1: "shuntingYard [lpa_token ops, i32_token ops 1] = (Some MismatchedParentheses, [])"
    by (simp add: shuntingYard_def shunting_step_def token_fields)
  from a l s c p l1 s1 show ?thesis
    by (simp add: reorder_def evaluate_def)
qed

text \<open>
  C6. \<^verbatim>\<open>2^3^2\<close> is evaluated as \<open>2^(3^2)\<close>: the second \<^verbatim>\<open>^\<close> does not pop the first, since
  a right-associative operator pops only a strictly higher precedence, and the result is
  \<open>pow(2, pow(3, 2))\<close>, which is 512 when \<^verbatim>\<open>std::pow\<close> is exact on these two small powers.
\<close>

theorem C6_power_groups_right:
  assumes "fpow ops (of_long ops 3) (of_long ops 2) = of_long ops 9"
    and "fpow ops (of_long ops 2) (of_long ops 9) = of_long ops 512"
  shows "evaluate ops ''2^3^2'' = Inr (of_long ops 512)
    \<and> evaluate ops ''2^3^2'' = Inr (fpow ops (of_long ops 2) (fpow ops (of_long ops 3) (of_long ops 2)))
    \<and> pop_operators (exp_token ops) (exp_token ops # stack) queue = (exp_token ops # stack, queue)"
proof -
  have "evaluate ops ''2^3^2''
      = Inr (fpow ops (of_long ops 2) (fpow ops (of_long ops 3) (of_long ops 2)))"
    by (simp add: evaluate_def lex_2_pow_3_pow_2 shuntingYard_2_pow_3_pow_2 compute_2_3_2_pow_pow)
  moreover have "pop_operators (exp_token ops) (exp_token ops # stack) queue
      = (exp_token ops # stack, queue)"
    by (simp add: token_fields)
  ultimately show ?thesis
    using assms by simp
qed

theorem C6_power_groups_right_witness:
  "fpow exact_ops (of_long exact_ops 3) (of_long exact_ops 2) = of_long exact_ops 9
   \<and> fpow exact_ops (of_long exact_ops 2) (of_long exact_ops 9) = of_long exact_ops 512
   \<and> evaluate exact_ops ''2^3^2'' = Inr 512"
proof -
  have a: "fpow exact_ops (of_long exact_ops 3) (of_long exact_ops 2) = of_long exact_ops 9"
    by (simp add: exact_ops_def exact_pow_def)
  have b: "fpow exact_ops (of_long exact_ops 2) (of_long exact_ops 9) = of_long exact_ops 512"
    by (simp add: exact_ops_def exact_pow_def)
  have "of_long exact_ops 512 = (512::real)"
    by (simp add: exact_ops_def)
  then show ?thesis
    using a b C6_power_groups_right [OF a b] by simp
qed

text \<open>
  C7. \<^verbatim>\<open>-3^2\<close> is evaluated as \<open>(-3)^2\<close>: a \<^verbatim>\<open>-\<close> that is the first token, or that follows
  an operator or a left parenthesis, becomes the unary token of precedence 5; the \<^verbatim>\<open>^\<close> of
  precedence 4 pops it, so 3 is negated before the power is taken. The result is 9 when
  \<open>3 * -1\<close> is \<open>-3\<close> and \<open>pow(-3, 2)\<close> is 9 in \<^verbatim>\<open>float\<close>.
\<close>

theorem C7_unary_minus_before_power:
  assumes "fmul ops (of_long ops 3) (of_long ops (- 1)) = of_long ops (- 3)"
    and "fpow ops (of_long ops (- 3)) (of_long ops 2) = of_long ops 9"
  shows "evaluate ops ''-3^2'' = Inr (of_long ops 9)
    \<and> evaluate ops ''-3^2'' = Inr (fpow ops (fmul ops (of_long ops 3) (of_long ops (- 1))) (of_long ops 2))
    \<and> (\<forall>cs formatTokens. data_at cs = CHR ''-'' \<and>
          (formatTokens = [] \<or> ttype (last formatTokens) \<in> {t_add, t_sub, t_mul, t_div, t_mod, t_exp, t_lpa})
          \<longrightarrow> lex_token ops cs formatTokens = Inr (unary_token ops, tl cs))
    \<and> ttype (unary_token ops) = t_sub \<and> unary (unary_token ops)
    \<and> precedence (unary_token ops) = 5 \<and> precedence (exp_token ops) = 4"
proof -
  have "evaluate ops ''-3^2''
      = Inr (fpow ops (fmul ops (of_long ops 3) (of_long ops (- 1))) (of_long ops 2))"
    by (simp add: evaluate_def lex_minus_3_pow_2 shuntingYard_minus_3_pow_2 compute_3_minus_2_pow)
  moreover have "\<forall>cs formatTokens. data_at cs = CHR ''-'' \<and>
      (formatTokens = [] \<or> ttype (last formatTokens) \<in> {t_add, t_sub, t_mul, t_div, t_mod, t_exp, t_lpa})
      \<longrightarrow> lex_token ops cs formatTokens = Inr (unary_token ops, tl cs)"
    by (auto simp: minus_is_unary_def intro!: lex_token_unary_minus)
  moreover have "ttype (unary_token ops) = t_sub \<and> unary (unary_token ops)
      \<and> precedence (unary_token ops) = 5 \<and> precedence (exp_token ops) = 4"
    by (simp add: token_fields)
  ultimately show ?thesis
    using assms by simp
qed

theorem C7_unary_minus_before_power_witness:
  "fmul exact_ops (of_long exact_ops 3) (of_long exact_ops (- 1)) = of_long exact_ops (- 3)
   \<and> fpow exact_ops (of_long exact_ops (- 3)) (of_long exact_ops 2) = of_long exact_ops 9
   \<and> evaluate exact_ops ''-3^2'' = Inr 9
   \<and> data_at ''-3^2'' = CHR ''-''
   \<and> lex_token exact_ops ''-3^2'' [] = Inr (unary_token exact_ops, ''3^2'')"
proof -
  have a: "fmul exact_ops (of_long exact_ops 3) (of_long exact_ops (- 1)) = of_long exact_ops (- 3)"
    by (simp add: exact_ops_def)
  have b: "fpow exact_ops (of_long exact_ops (- 3)) (of_long exact_ops 2) = of_long exact_ops 9"
    by (simp add: exact_ops_def exact_pow_def)
  have c: "of_long exact_ops 9 = (9::real)"
    by (simp add: exact_ops_def)
  have d: "data_at ''-3^2'' = CHR ''-''"
    by (simp add: data_at_def)
  note inst = C7_unary_minus_before_power [OF a b]
  from inst have "evaluate exact_ops ''-3^2'' = Inr (of_long exact_ops 9)"
    by simp
  moreover from inst d have "lex_token exact_ops ''-3^2'' [] = Inr (unary_token exact_ops, tl ''-3^2'')"
    by blast
  ultimately show ?thesis
    using a b c d by simp
qed

text \<open>
  C8. \<^verbatim>\<open>3.14\<close> is one float literal whose value is what \<^verbatim>\<open>std::stof\<close> makes of the text
  \<^verbatim>\<open>3.14\<close>; \<^verbatim>\<open>3_000\<close> is one integer literal of value 3000, the underscore being left
  out of the digit text; \<^verbatim>\<open>3.1.4\<close> ends the process at the second decimal point. The
  token of a literal is a float literal exactly when the text read for it contains a
  decimal point, and an integer literal otherwise.
\<close>

theorem C8_numeric_literals:
  "(\<forall>v. stof ops ''3.14'' = Some v \<longrightarrow> lexana_lex ops ''3.14'' = Inr [f32_token ops v])
   \<and> lexana_lex ops ''3_000'' = Inr [i32_token ops 3000]
   \<and> scan_number ''3_000'' t_i32 [] = Inr (t_i32, ''3000'', [])
   \<and> lexana_lex ops ''3.1.4'' = Inl RedefinitionOfFloat
   \<and> (\<forall>cs formatTokens t rest.
        (isdigit (data_at cs) \<or> data_at cs = CHR ''.'')
          \<and> lex_token ops cs formatTokens = Inr (t, rest) \<longrightarrow>
        (ttype t = t_f32) = (CHR ''.'' \<in> set (consumed cs rest))
        \<and> (ttype t \<noteq> t_f32 \<longrightarrow> ttype t = t_i32))"
proof -
  have "\<forall>v. stof ops ''3.14'' = Some v \<longrightarrow> lexana_lex ops ''3.14'' = Inr [f32_token ops v]"
    by (simp add: lex_3_14)
  moreover have "scan_number ''3_000'' t_i32 [] = Inr (t_i32, ''3000'', [])"
    by (simp add: isdigit_def)
  moreover have "\<forall>cs formatTokens t rest.
        (isdigit (data_at cs) \<or> data_at cs = CHR ''.'')
          \<and> lex_token ops cs formatTokens = Inr (t, rest) \<longrightarrow>
        (ttype t = t_f32) = (CHR ''.'' \<in> set (consumed cs rest))
        \<and> (ttype t \<noteq> t_f32 \<longrightarrow> ttype t = t_i32)"
    using lex_token_literal_type [of _ ops] by blast
  ultimately show ?thesis
    by (simp add: lex_3_000 lex_3_1_4)
qed

theorem C8_numeric_literals_witness:
  "stof exact_ops ''3.14'' = Some 3.14
   \<and> lexana_lex exact_ops ''3.14'' = Inr [f32_token exact_ops 3.14]
   \<and> isdigit (data_at ''3.14+1'')
   \<and> lex_token exact_ops ''3.14+1'' [] = Inr (f32_token exact_ops 3.14, ''+1'')
   \<and> CHR ''.'' \<in> set (consumed ''3.14+1'' ''+1'')
   \<and> isdigit (data_at ''3_000'')
   \<and> lex_token exact_ops ''3_000'' [] = Inr (i32_token exact_ops 3000, [])
   \<and> CHR ''.'' \<notin> set (consumed ''3_000'' [])"
proof -
  have a: "stof exact_ops ''3.14'' = Some 3.14"
    by (simp add: exact_ops_def decimal_value_def digit_val_def)
  have b: "isdigit (data_at ''3.14+1'')
      \<and> lex_token exact_ops ''3.14+1'' [] = Inr (f32_token exact_ops 3.14, ''+1'')"
    by (simp add: lex_run exact_ops_def decimal_value_def)
  have c: "isdigit (data_at ''3_000'')
      \<and> lex_token exact_ops ''3_000'' [] = Inr (i32_token exact_ops 3000, [])"
    by (simp add: lex_run)
  have d: "ttype (f32_token exact_ops 3.14) = t_f32" "ttype (i32_token exact_ops 3000) \<noteq> t_f32"
    by (simp_all add: token_fields)
  note inst = C8_numeric_literals [of exact_ops]
  from inst a have "lexana_lex exact_ops ''3.14'' = Inr [f32_token exact_ops 3.14]"
    by blast
  moreover from inst b d(1) have "CHR ''.'' \<in> set (consumed ''3.14+1'' ''+1'')"
    by blast
  moreover from inst c d(2) have "CHR ''.'' \<notin> set (consumed ''3_000'' [])"
    by blast
  ultimately show ?thesis
    using a b c by simp
qed

text \<open>
  C9. Every token of the sequence that \<^verbatim>\<open>shuntingYard\<close> returns is a token of its input,
  equal to it in every field.
\<close>

theorem C9_reorder_keeps_tokens:
  "\<forall>t \<in> set (snd (shuntingYard tokens)). t \<in> set tokens"
  using shunting_loop_set [of tokens "[]" "[]"] by (auto simp: shuntingYard_def)

theorem C9_reorder_keeps_tokens_witness:
  "add_token exact_ops \<in> set (snd (shuntingYard [i32_token exact_ops 1, add_token exact_ops, i32_token exact_ops 2]))
   \<and> add_token exact_ops \<in> set [i32_token exact_ops 1, add_token exact_ops, i32_token exact_ops 2]"
proof -
  have "add_token exact_ops
      \<in> set (snd (shuntingYard [i32_token exact_ops 1, add_token exact_ops, i32_token exact_ops 2]))"
    by (simp add: shuntingYard_1_plus_2)
  then show ?thesis
    using C9_reorder_keeps_tokens [of "[i32_token exact_ops 1, add_token exact_ops, i32_token exact_ops 2]"]
    by blast
qed

text \<open>
  C10. \<^verbatim>\<open>compute\<close> on the empty sequence ends with \<^verbatim>\<open>stack.back()\<close> on an empty stack.
  Whenever \<^verbatim>\<open>shuntingYard\<close> writes a diagnostic it returns the empty sequence, so every
  line whose reordering fails, such as \<^verbatim>\<open>)1+2\<close>, brings \<^verbatim>\<open>main\<close> to that read.
\<close>

theorem C10_compute_of_empty_sequence:
  "compute ops [] = Inl EmptyStackAccess
   \<and> (\<forall>tokens d. fst (shuntingYard tokens) = Some d \<longrightarrow>
        snd (shuntingYard tokens) = [] \<and> compute ops (snd (shuntingYard tokens)) = Inl EmptyStackAccess)
   \<and> (\<forall>text tokens d. lexana_lex ops text = Inr tokens \<and> fst (shuntingYard tokens) = Some d \<longrightarrow>
        evaluate ops text = Inl EmptyStackAccess)"
proof -
  have empty: "compute ops [] = Inl EmptyStackAccess"
    by (simp add: compute_def)
  have diag: "snd (shuntingYard tokens) = []" if "fst (shuntingYard tokens) = Some d"
    for tokens :: "'a token list" and d
    using that shunting_loop_diagnostic [of tokens "[]" "[]" d] by (simp add: shuntingYard_def)
  have "evaluate ops line = Inl EmptyStackAccess"
    if "lexana_lex ops line = Inr tokens" "fst (shuntingYard tokens) = Some d" for line tokens d
    using that diag [of tokens d] empty by (simp add: evaluate_def)
  with empty diag show ?thesis
    by metis
qed

theorem C10_compute_of_empty_sequence_witness:
  "lexana_lex exact_ops '')1+2''
     = Inr [rpa_token exact_ops, i32_token exact_ops 1, add_token exact_ops, i32_token exact_ops 2]
   \<and> fst (shuntingYard [rpa_token exact_ops, i32_token exact_ops 1, add_token exact_ops, i32_token exact_ops 2])
     = Some RightParenthesisError
   \<and> snd (shuntingYard [rpa_token exact_ops, i32_token exact_ops 1, add_token exact_ops, i32_token exact_ops 2])
     = []
   \<and> evaluate exact_ops '')1+2'' = Inl EmptyStackAccess"
proof -
  have a: "lexana_lex exact_ops '')1+2''
      = Inr [rpa_token exact_ops, i32_token exact_ops 1, add_token exact_ops, i32_token exact_ops 2]"
    by (rule lex_rpa_1_plus_2)
  have b: "fst (shuntingYard [rpa_token exact_ops, i32_token exact_ops 1, add_token exact_ops, i32_token exact_ops 2])
      = Some RightParenthesisError"
    by (simp add: shuntingYard_rpa_1_plus_2)
  note inst = C10_compute_of_empty_sequence [of exact_ops]
  from inst b
  have "snd (shuntingYard [rpa_token exact_ops, i32_token exact_ops 1, add_token exact_ops, i32_token exact_ops 2])
      = []"
    by blast
  moreover from inst a b have "evaluate exact_ops '')1+2'' = Inl EmptyStackAccess"
    by blast
  ultimately show ?thesis
    using a b by simp
qed

end
